theory Spec2Isabelle
  imports Main "HOL-Library.Word" "HOL-Library.Sublist"
begin

section \<open>Standard-library text conversions used by the handler\<close>

text \<open>
  Go strings and byte slices are sequences of bytes: \<open>string\<close> (a list of 8-bit
  characters) models both. \<open>strconv.AppendInt(buf, n, 10)\<close> appends the shortest decimal
  text of \<open>n\<close>, with a leading minus sign for a negative number;
  \<open>strconv.AppendUint\<close> and \<open>strconv.AppendBool\<close> are modelled the same way. They belong
  to the Go standard library, not to the repository.
\<close>

definition digitChar :: "nat \<Rightarrow> char" where
  "digitChar d = ''0123456789'' ! d"

function formatUint :: "nat \<Rightarrow> string" where
  "formatUint n = (if n < 10 then [digitChar n] else formatUint (n div 10) @ [digitChar (n mod 10)])"
  by pat_completeness auto
termination
  by (relation "measure (\<lambda>n. n)") auto

declare formatUint.simps [simp del]

definition formatInt :: "int \<Rightarrow> string" where
  "formatInt i = (if i < 0 then CHR ''-'' # formatUint (nat (- i)) else formatUint (nat i))"

definition formatBool :: "bool \<Rightarrow> string" where
  "formatBool b = (if b then ''true'' else ''false'')"

text \<open>
  \<open>slog.Level.String\<close>: the name of the nearest named level below, followed by the signed
  offset when it is not zero (\<open>INFO\<close>, \<open>WARN+1\<close>, \<open>DEBUG-2\<close>). The named levels are
  Debug = -4, Info = 0, Warn = 4, Error = 8.
\<close>

definition LevelDebug :: int where "LevelDebug = - 4"
definition LevelInfo :: int where "LevelInfo = 0"
definition LevelWarn :: int where "LevelWarn = 4"
definition LevelError :: int where "LevelError = 8"

definition levelStr :: "string \<Rightarrow> int \<Rightarrow> string" where
  "levelStr base val =
     (if val = 0 then base
      else if 0 < val then base @ ''+'' @ formatInt val
      else base @ formatInt val)"

definition levelString :: "int \<Rightarrow> string" where
  "levelString l =
     (if l < LevelInfo then levelStr ''DEBUG'' (l - LevelDebug)
      else if l < LevelWarn then levelStr ''INFO'' (l - LevelInfo)
      else if l < LevelError then levelStr ''WARN'' (l - LevelWarn)
      else levelStr ''ERROR'' (l - LevelError))"

text \<open>
  The conversions whose algorithms are outside the repository and too large to transcribe
  are parameters of the model, gathered in one record: the calendar reading and layout
  formatting of \<open>time.Time\<close> (the type \<open>'t\<close>), the shortest float text of
  \<open>strconv.AppendFloat(buf, f, 'g', -1, 64)\<close> (on the 64 bits of the float), the text of
  \<open>time.Duration.String\<close> (on the 64-bit nanosecond count) and the frame that
  \<open>runtime.CallersFrames\<close> resolves a program counter to (file and line).
\<close>

record 't Lib =
  IsZero :: "'t \<Rightarrow> bool"
  Date :: "'t \<Rightarrow> int \<times> int \<times> int"
  Clock :: "'t \<Rightarrow> int \<times> int \<times> int"
  Format :: "'t \<Rightarrow> string \<Rightarrow> string"
  AppendFloat :: "64 word \<Rightarrow> string"
  DurationString :: "64 word \<Rightarrow> string"
  CallersFrame :: "64 word \<Rightarrow> string \<times> int"

definition RFC3339 :: string where
  "RFC3339 = ''2006-01-02T15:04:05Z07:00''"

section \<open>Attributes and values\<close>

text \<open>
  \<open>slog.Value\<close> by kind. \<open>AnyValue\<close> stands for the kinds the handler's \<open>switch\<close> sends to
  its \<open>default\<close> branch (KindAny, KindLogValuer): it carries the text \<open>Value.String\<close>
  gives, and \<open>None\<close> is the nil interface of the zero \<open>Value\<close>, whose text is \<open><nil>\<close>.
  The zero \<open>slog.Attr{}\<close> has the empty key and that zero value.
\<close>

datatype 't Value =
    StringValue string
  | Int64Value "64 word"
  | Uint64Value "64 word"
  | Float64Value "64 word"
  | BoolValue bool
  | DurationValue "64 word"
  | TimeValue 't
  | GroupValue "'t Attr list"
  | AnyValue "string option"
and 't Attr = Attr (Key: string) (Val: "'t Value")

definition emptyAttr :: "'t Attr" where
  "emptyAttr = Attr [] (AnyValue None)"

definition anyString :: "string option \<Rightarrow> string" where
  "anyString x = (case x of None \<Rightarrow> ''<nil>'' | Some s \<Rightarrow> s)"

text \<open>
  \<open>Handler.appendValue\<close> (handler.go, lines 187-223). The \<open>for i, a := range attrs\<close> loop
  of the group case is \<open>appendGroupLoop\<close>, whose \<open>nat\<close> argument is the index \<open>i\<close>.
\<close>

fun appendValue :: "'t Lib \<Rightarrow> string \<Rightarrow> 't Value \<Rightarrow> string"
and appendGroupLoop :: "'t Lib \<Rightarrow> string \<Rightarrow> nat \<Rightarrow> 't Attr list \<Rightarrow> string"
and appendGroupEntry :: "'t Lib \<Rightarrow> string \<Rightarrow> 't Attr \<Rightarrow> string" where
  "appendValue lib buf (StringValue s) = buf @ s"
| "appendValue lib buf (Int64Value v) = buf @ formatInt (sint v)"
| "appendValue lib buf (Uint64Value v) = buf @ formatUint (unat v)"
| "appendValue lib buf (Float64Value v) = buf @ AppendFloat lib v"
| "appendValue lib buf (BoolValue b) = buf @ formatBool b"
| "appendValue lib buf (DurationValue d) = buf @ DurationString lib d"
| "appendValue lib buf (TimeValue t) = buf @ Format lib t RFC3339"
| "appendValue lib buf (GroupValue as) =
     (if length as = 0 then buf
      else appendGroupLoop lib (buf @ ''{'') 0 as @ ''}'')"
| "appendValue lib buf (AnyValue x) = buf @ anyString x"
| "appendGroupLoop lib buf i [] = buf"
| "appendGroupLoop lib buf i (a # as) =
     appendGroupLoop lib
       (appendGroupEntry lib (if 0 < i then buf @ '' '' else buf) a) (Suc i) as"
| "appendGroupEntry lib buf (Attr k v) = appendValue lib (buf @ k @ ''='') v"

section \<open>Fixed-width integers and the timestamp\<close>

text \<open>
  \<open>appendInt\<close> (handler.go, lines 226-243). \<open>appendNul\<close> is the first loop, which appends
  \<open>padding\<close> NUL bytes; \<open>copySlice buf off src\<close> is \<open>copy(buf[off:], src)\<close>, which moves
  \<open>min (len buf - off) (len src)\<close> bytes as if through a temporary (the two slices overlap);
  \<open>slice buf lo hi\<close> is \<open>buf[lo:hi]\<close>; \<open>fillZero\<close> is the second loop, which stores
  \<open>'0'\<close> at \<open>buf[start+i]\<close>.
\<close>

function appendNul :: "nat \<Rightarrow> nat \<Rightarrow> string \<Rightarrow> string" where
  "appendNul i padding buf =
     (if i < padding then appendNul (Suc i) padding (buf @ [CHR 0x00]) else buf)"
  by pat_completeness auto
termination
  by (relation "measure (\<lambda>(i, padding, buf). padding - i)") auto

declare appendNul.simps [simp del]

definition slice :: "'a list \<Rightarrow> nat \<Rightarrow> nat \<Rightarrow> 'a list" where
  "slice buf lo hi = take (hi - lo) (drop lo buf)"

definition copySlice :: "'a list \<Rightarrow> nat \<Rightarrow> 'a list \<Rightarrow> 'a list" where
  "copySlice buf off src =
     (let n = min (length buf - off) (length src)
      in take off buf @ take n src @ drop (off + n) buf)"

function fillZero :: "nat \<Rightarrow> nat \<Rightarrow> nat \<Rightarrow> string \<Rightarrow> string" where
  "fillZero i padding start buf =
     (if i < padding then fillZero (Suc i) padding start (buf[start + i := CHR ''0''])
      else buf)"
  by pat_completeness auto
termination
  by (relation "measure (\<lambda>(i, padding, start, buf). padding - i)") auto

declare fillZero.simps [simp del]

definition appendInt :: "string \<Rightarrow> int \<Rightarrow> int \<Rightarrow> string" where
  "appendInt buf n width =
     (let start = length buf;
          buf1 = buf @ formatInt n;
          actual = int (length buf1) - int start
      in if actual < width then
           (let padding = nat (width - actual);
                buf2 = appendNul 0 padding buf1;
                buf3 = copySlice buf2 (start + padding)
                         (slice buf2 start (length buf2 - padding))
            in fillZero 0 padding start buf3)
         else buf1)"

text \<open>
  The padding the specification recommends instead: the decimal text written after
  \<open>width - length\<close> characters \<open>'0'\<close>, with no placeholder bytes.
\<close>

definition zeroFill :: "string \<Rightarrow> int \<Rightarrow> int \<Rightarrow> string" where
  "zeroFill buf n width =
     buf @ replicate (nat (width - int (length (formatInt n)))) (CHR ''0'') @ formatInt n"

text \<open>The value of a string of decimal digits, most significant digit first.\<close>

definition digitVal :: "char \<Rightarrow> nat" where
  "digitVal c = of_char c - 48"

definition decimalValue :: "string \<Rightarrow> nat" where
  "decimalValue s = foldl (\<lambda>acc c. 10 * acc + digitVal c) 0 s"

definition isDigit :: "char \<Rightarrow> bool" where
  "isDigit c = (c \<in> set ''0123456789'')"

section \<open>Options, handlers and the program state\<close>

text \<open>
  Go's \<open>error\<close> values are identified by their message. An \<open>io.Writer\<close> is its \<open>Write\<close>
  method: it receives the bytes and the state of everything outside the handler (type
  \<open>'s\<close>), and returns the byte count, the error (if any) and the new outside state.
\<close>

datatype error = Error string

type_synonym 's Writer = "string \<Rightarrow> 's \<Rightarrow> (int \<times> error option) \<times> 's"

text \<open>
  \<open>Options\<close> (handler.go, lines 27-41). \<open>Level\<close> is a \<open>slog.Leveler\<close>: \<open>None\<close> is the nil
  interface, \<open>Some l\<close> an object whose \<open>Level()\<close> method reads the outside state.
  \<open>ReplaceAttr\<close> is a Go closure: it may read and change the outside state.
\<close>

record ('t, 's) Options =
  Level :: "('s \<Rightarrow> int) option"
  TimeFormat :: string
  AddSource :: bool
  ReplaceAttr :: "(string list \<Rightarrow> 't Attr \<Rightarrow> 's \<Rightarrow> 't Attr \<times> 's) option"

definition zeroOptions :: "('t, 's) Options" where
  "zeroOptions = \<lparr>Level = None, TimeFormat = [], AddSource = False, ReplaceAttr = None\<rparr>"

text \<open>
  \<open>Handler\<close> (handler.go, lines 17-24). \<open>pool\<close> is a pointer: the address of a
  \<open>sync.Pool\<close> in the program state. The mutex \<open>mu\<close> is embedded by value, so a handler's
  lock is the handler object itself: the record has no field for it, and the section on
  concurrent calls identifies the lock by the object's address.
  The slices \<open>groups\<close> and \<open>attrs\<close> are lists: the code writes to a backing array only
  between \<open>make\<close> and the return of the new handler, never to an array a handler
  already holds.
\<close>

record ('t, 's) Handler =
  opts :: "('t, 's) Options"
  out :: "'s Writer"
  pool :: nat
  groups :: "string list"
  attrs :: "'t Attr list"

text \<open>
  \<open>slog.Record\<close>, with the fields the handler reads: \<open>rAttrs\<close> is the sequence that
  \<open>r.Attrs\<close> iterates over.
\<close>

record 't Record =
  rTime :: 't
  rMessage :: string
  rLevel :: int
  rPC :: "64 word"
  rAttrs :: "'t Attr list"

text \<open>
  A \<open>sync.Pool\<close> of \<open>*[]byte\<close>: each item is a pointer (numbered in the order the pool's
  \<open>New\<close> function made them) with the bytes of the slice it points to. \<open>Get\<close> takes an
  item, or makes one with the empty slice when the pool has none; \<open>Put\<close> gives one back.
  The real pool may choose any item and may drop items; the model takes the most
  recently returned one.
\<close>

record Pool =
  items :: "(nat \<times> string) list"
  made :: nat

definition pool_Get :: "Pool \<Rightarrow> (nat \<times> string) \<times> Pool" where
  "pool_Get pl =
     (case items pl of
        [] \<Rightarrow> ((made pl, []), pl\<lparr>made := Suc (made pl)\<rparr>)
      | b # bs \<Rightarrow> (b, pl\<lparr>items := bs\<rparr>))"

definition pool_Put :: "nat \<times> string \<Rightarrow> Pool \<Rightarrow> Pool" where
  "pool_Put b pl = pl\<lparr>items := b # items pl\<rparr>"

text \<open>
  The program state: the handler objects and the pools, each addressed by its index, and
  the outside state the writer, the leveler and the rewrite hook work on.
\<close>

record ('t, 's) World =
  handlers :: "('t, 's) Handler list"
  pools :: "Pool list"
  ext :: 's

text \<open>\<open>New\<close> (handler.go, lines 44-66): returns the address of the new handler.\<close>

definition New :: "'s Writer \<Rightarrow> ('t, 's) Options option \<Rightarrow> ('t, 's) World \<Rightarrow> nat \<times> ('t, 's) World" where
  "New wr optsp w =
     (let h = \<lparr>opts = zeroOptions, out = wr, pool = length (pools w), groups = [], attrs = []\<rparr>;
          h = (case optsp of None \<Rightarrow> h | Some x \<Rightarrow> h\<lparr>opts := x\<rparr>);
          h = (if TimeFormat (opts h) = [] then h\<lparr>opts := (opts h)\<lparr>TimeFormat := ''2006/01/02 15:04:05''\<rparr>\<rparr>
               else h)
      in (length (handlers w),
          w\<lparr>handlers := handlers w @ [h], pools := pools w @ [\<lparr>items = [], made = 0\<rparr>]\<rparr>))"

text \<open>\<open>Handler.Enabled\<close> (handler.go, lines 69-75), on the handler at address \<open>p\<close>.\<close>

definition Enabled :: "nat \<Rightarrow> int \<Rightarrow> ('t, 's) World \<Rightarrow> bool" where
  "Enabled p level w =
     (let h = handlers w ! p;
          minLevel = (case Level (opts h) of None \<Rightarrow> LevelInfo | Some l \<Rightarrow> l (ext w))
      in minLevel \<le> level)"

text \<open>
  \<open>slog.LevelVar\<close>, the mutable threshold: here the outside state is a store of level
  cells, \<open>LevelVar_Level v\<close> reads cell \<open>v\<close> and \<open>LevelVar_Set v l\<close> writes it.
\<close>

definition LevelVar_Level :: "nat \<Rightarrow> (nat \<Rightarrow> int) \<Rightarrow> int" where
  "LevelVar_Level v s = s v"

definition LevelVar_Set :: "nat \<Rightarrow> int \<Rightarrow> (nat \<Rightarrow> int) \<Rightarrow> (nat \<Rightarrow> int)" where
  "LevelVar_Set v l s = s(v := l)"

text \<open>\<open>Handler.appendTime\<close> (handler.go, lines 137-159).\<close>

definition appendTime :: "'t Lib \<Rightarrow> ('t, 's) Handler \<Rightarrow> string \<Rightarrow> 't \<Rightarrow> string" where
  "appendTime lib h buf t =
     (if TimeFormat (opts h) = ''2006/01/02 15:04:05'' then
        (let (year, month, day) = Date lib t;
             (hour, minute, sec) = Clock lib t;
             buf = appendInt buf year 4;
             buf = buf @ ''/'';
             buf = appendInt buf month 2;
             buf = buf @ ''/'';
             buf = appendInt buf day 2;
             buf = buf @ '' '';
             buf = appendInt buf hour 2;
             buf = buf @ '':'';
             buf = appendInt buf minute 2;
             buf = buf @ '':'';
             buf = appendInt buf sec 2
         in buf)
      else buf @ Format lib t (TimeFormat (opts h)))"

text \<open>
  \<open>Handler.appendAttr\<close> (handler.go, lines 162-184); \<open>appendGroups\<close> is its loop over the
  group names. It returns the buffer and the outside state after the hook's call.
\<close>

fun appendGroups :: "string \<Rightarrow> string list \<Rightarrow> string" where
  "appendGroups buf [] = buf"
| "appendGroups buf (g # gs) = appendGroups (buf @ g @ ''.'') gs"

definition appendAttr ::
  "'t Lib \<Rightarrow> ('t, 's) Handler \<Rightarrow> string \<Rightarrow> string list \<Rightarrow> 't Attr \<Rightarrow> 's \<Rightarrow> string \<times> 's" where
  "appendAttr lib h buf gs a s =
     (let (a, s) = (case ReplaceAttr (opts h) of None \<Rightarrow> (a, s) | Some f \<Rightarrow> f gs a s)
      in if a = emptyAttr then (buf, s)
         else (let buf = buf @ '' '';
                   buf = appendGroups buf gs;
                   buf = buf @ Key a;
                   buf = buf @ ''=''
               in (appendValue lib buf (Val a), s)))"

text \<open>
  The two loops of \<open>Handle\<close> that call \<open>appendAttr\<close> for each attribute of a sequence
  (lines 115-117 over \<open>h.attrs\<close>, lines 124-127 over the record's attributes).
\<close>

fun appendAttrs ::
  "'t Lib \<Rightarrow> ('t, 's) Handler \<Rightarrow> string list \<Rightarrow> string \<Rightarrow> 't Attr list \<Rightarrow> 's \<Rightarrow> string \<times> 's" where
  "appendAttrs lib h gs buf [] s = (buf, s)"
| "appendAttrs lib h gs buf (a # as) s =
     (let (buf, s) = appendAttr lib h buf gs a s in appendAttrs lib h gs buf as s)"

text \<open>
  \<open>Handler.Handle\<close> (handler.go, lines 78-134). \<open>Handle_line\<close> is its lines 90-130: the
  bytes assembled in \<open>buf\<close>, and the outside state after the hook calls. \<open>Handle\<close> takes
  the buffer from the handler's pool, builds the line, writes it, and (the deferred
  function) stores the slice back through the pointer and puts the pointer into the pool.
\<close>

definition Handle_line ::
  "'t Lib \<Rightarrow> ('t, 's) Handler \<Rightarrow> 't Record \<Rightarrow> string \<Rightarrow> 's \<Rightarrow> string \<times> 's" where
  "Handle_line lib h r buf s =
     (let buf = (if TimeFormat (opts h) \<noteq> [] \<and> \<not> IsZero lib (rTime r)
                 then appendTime lib h buf (rTime r) @ '' '' else buf);
          level = levelString (rLevel r);
          buf = buf @ level;
          buf = buf @ '' '';
          buf = (if AddSource (opts h) \<and> rPC r \<noteq> 0 then
                   (let (file, line) = CallersFrame lib (rPC r)
                    in if file \<noteq> [] then buf @ ''source='' @ file @ '':'' @ formatInt line @ '' ''
                       else buf)
                 else buf);
          (buf, s) = appendAttrs lib h (groups h) buf (attrs h) s;
          buf = buf @ ''msg='';
          buf = buf @ rMessage r;
          (buf, s) = appendAttrs lib h (groups h) buf (rAttrs r) s;
          buf = buf @ [CHR 0x0A]
      in (buf, s))"

definition Handle ::
  "'t Lib \<Rightarrow> nat \<Rightarrow> 't Record \<Rightarrow> ('t, 's) World \<Rightarrow> error option \<times> ('t, 's) World" where
  "Handle lib p r w =
     (let h = handlers w ! p;
          (bufp, pl) = pool_Get (pools w ! pool h);
          buf = take 0 (snd bufp);
          (buf, s) = Handle_line lib h r buf (ext w);
          ((n, err), s) = out h buf s;
          pl = pool_Put (fst bufp, buf) pl
      in (err, w\<lparr>pools := (pools w)[pool h := pl], ext := s\<rparr>))"

text \<open>
  \<open>Handler.WithAttrs\<close> and \<open>Handler.WithGroup\<close> (handler.go, lines 246-279): each returns
  the address it was given, or the address of a handler it allocates. \<open>make\<close> gives a
  slice of zero values, which the \<open>copy\<close> calls and the indexed store fill.
\<close>

definition WithAttrs :: "nat \<Rightarrow> 't Attr list \<Rightarrow> ('t, 's) World \<Rightarrow> nat \<times> ('t, 's) World" where
  "WithAttrs p as w =
     (if length as = 0 then (p, w)
      else
        (let h = handlers w ! p;
             new = replicate (length (attrs h) + length as) emptyAttr;
             new = copySlice new 0 (attrs h);
             new = copySlice new (length (attrs h)) as;
             newHandler = \<lparr>opts = opts h, out = out h, pool = pool h, groups = groups h, attrs = new\<rparr>
         in (length (handlers w), w\<lparr>handlers := handlers w @ [newHandler]\<rparr>)))"

definition WithGroup :: "nat \<Rightarrow> string \<Rightarrow> ('t, 's) World \<Rightarrow> nat \<times> ('t, 's) World" where
  "WithGroup p name w =
     (if name = [] then (p, w)
      else
        (let h = handlers w ! p;
             new = replicate (length (groups h) + 1) [];
             new = copySlice new 0 (groups h);
             new = new[length (groups h) := name];
             newHandler = \<lparr>opts = opts h, out = out h, pool = pool h, groups = new, attrs = attrs h\<rparr>
         in (length (handlers w), w\<lparr>handlers := handlers w @ [newHandler]\<rparr>)))"

section \<open>Concurrent calls of Handle\<close>

text \<open>
  What one call of \<open>Handle\<close> does that other goroutines can observe: \<open>h.mu.Lock()\<close>
  (line 87), the write of the line that lines 90-130 build, and the deferred
  \<open>h.mu.Unlock()\<close>. The mutex is a value field of the handler (line 19), so the lock a call
  takes is identified by the address of the handler it is called on. An \<open>io.Writer\<close>
  promises nothing about concurrent calls of \<open>Write\<close>: \<open>split\<close> gives the pieces in which
  the destination takes the bytes of one call, and the pieces of two unsynchronised calls
  may alternate.
\<close>

datatype Action = Lock nat | Piece string | Unlock nat

definition Handle_steps ::
  "'t Lib \<Rightarrow> (string \<Rightarrow> string list) \<Rightarrow> nat \<Rightarrow> 't Record \<Rightarrow> ('t, 's) World \<Rightarrow> Action list" where
  "Handle_steps lib split p r w =
     [Lock p] @ map Piece (split (fst (Handle_line lib (handlers w ! p) r [] (ext w)))) @ [Unlock p]"

text \<open>
  A schedule is a sequence of steps of several goroutines. \<open>runSteps\<close> carries it out on
  the mutexes held and the bytes the destination has received. The result \<open>None\<close> means
  the schedule cannot happen: a goroutine would pass \<open>Lock\<close> on a mutex that is held (it
  blocks instead), or call \<open>Unlock\<close> on one that is not. The schedules of two calls are the
  interleavings (\<open>shuffles\<close>) of their steps that \<open>runSteps\<close> accepts.
\<close>

fun step :: "Action \<Rightarrow> nat list \<times> string \<Rightarrow> (nat list \<times> string) option" where
  "step (Lock m) (held, d) = (if m \<in> set held then None else Some (m # held, d))"
| "step (Piece b) (held, d) = Some (held, d @ b)"
| "step (Unlock m) (held, d) = (if m \<in> set held then Some (removeAll m held, d) else None)"

fun runSteps :: "Action list \<Rightarrow> nat list \<times> string \<Rightarrow> (nat list \<times> string) option" where
  "runSteps [] st = Some st"
| "runSteps (a # as) st = (case step a st of None \<Rightarrow> None | Some st' \<Rightarrow> runSteps as st')"

section \<open>Reference texts and chains of operations\<close>

text \<open>
  The text of one attribute in the line format: a space, each group name followed by a
  dot, the key, \<open>=\<close> and the value; the empty attribute has no text.
\<close>

definition attrText :: "'t Lib \<Rightarrow> string list \<Rightarrow> 't Attr \<Rightarrow> string" where
  "attrText lib gs a =
     (if a = emptyAttr then []
      else '' '' @ concat (map (\<lambda>g. g @ ''.'') gs) @ Key a @ ''='' @ appendValue lib [] (Val a))"

text \<open>
  The bytes \<open>Handle\<close> appends before the bound attributes (timestamp, level, source:
  lines 90-112), and the bytes it appends for the bound attributes (lines 115-117).
\<close>

definition Handle_head :: "'t Lib \<Rightarrow> ('t, 's) Handler \<Rightarrow> 't Record \<Rightarrow> string" where
  "Handle_head lib h r =
     (if TimeFormat (opts h) \<noteq> [] \<and> \<not> IsZero lib (rTime r)
      then appendTime lib h [] (rTime r) @ '' '' else [])
     @ levelString (rLevel r) @ '' ''
     @ (if AddSource (opts h) \<and> rPC r \<noteq> 0 \<and> fst (CallersFrame lib (rPC r)) \<noteq> []
        then ''source='' @ fst (CallersFrame lib (rPC r)) @ '':''
             @ formatInt (snd (CallersFrame lib (rPC r))) @ '' ''
        else [])"

definition Handle_bound :: "'t Lib \<Rightarrow> ('t, 's) Handler \<Rightarrow> 's \<Rightarrow> string" where
  "Handle_bound lib h s = fst (appendAttrs lib h (groups h) [] (attrs h) s)"

text \<open>
  A rewrite hook whose returned attribute does not depend on the outside state: \<open>f\<close> gives
  the attribute, \<open>u\<close> is what the call does to the outside state. \<open>tracedHook f\<close> keeps, as
  the outside state, a log of the arguments of every call.
\<close>

definition hookOf ::
  "(string list \<Rightarrow> 't Attr \<Rightarrow> 't Attr) \<Rightarrow> (string list \<Rightarrow> 't Attr \<Rightarrow> 's \<Rightarrow> 's) \<Rightarrow>
   string list \<Rightarrow> 't Attr \<Rightarrow> 's \<Rightarrow> 't Attr \<times> 's" where
  "hookOf f u gs a s = (f gs a, u gs a s)"


definition withHook ::
  "('t, 's) Handler \<Rightarrow> (string list \<Rightarrow> 't Attr \<Rightarrow> 's \<Rightarrow> 't Attr \<times> 's) option \<Rightarrow> ('t, 's) Handler" where
  "withHook h k = h\<lparr>opts := (opts h)\<lparr>ReplaceAttr := k\<rparr>\<rparr>"

text \<open>
  The rewrite hook called on each attribute of a sequence in turn, the outside state
  passed from one call to the next: the rewritten attributes and the final state.
\<close>

fun rewriteAll ::
  "(string list \<Rightarrow> 't Attr \<Rightarrow> 's \<Rightarrow> 't Attr \<times> 's) \<Rightarrow> string list \<Rightarrow> 't Attr list \<Rightarrow> 's \<Rightarrow>
   't Attr list \<times> 's" where
  "rewriteAll k gs [] s = ([], s)"
| "rewriteAll k gs (a # as) s =
     (case k gs a s of (a', s') \<Rightarrow>
        (case rewriteAll k gs as s' of (as', s'') \<Rightarrow> (a' # as', s'')))"

text \<open>The handler object that \<open>New\<close> returns the address of.\<close>

definition newHandler :: "'s Writer \<Rightarrow> ('t, 's) Options option \<Rightarrow> ('t, 's) World \<Rightarrow> ('t, 's) Handler" where
  "newHandler wr optsp w = handlers (snd (New wr optsp w)) ! fst (New wr optsp w)"

text \<open>
  A chain of \<open>bind\<close> and \<open>enterGroup\<close> operations, run on the code by \<open>applyOps\<close>.
  \<open>specChain\<close> is the context chain in the specification's words: every bound attribute
  tagged with the group path that was current when it was bound. \<open>opsAttrs\<close> and
  \<open>opsPath\<close> are the attributes bound and the group names entered, in order.
\<close>

datatype 't ChainOp = Bind "'t Attr list" | EnterGroup string

fun applyOps :: "'t ChainOp list \<Rightarrow> nat \<Rightarrow> ('t, 's) World \<Rightarrow> nat \<times> ('t, 's) World" where
  "applyOps [] p w = (p, w)"
| "applyOps (Bind as # ops) p w = (case WithAttrs p as w of (p', w') \<Rightarrow> applyOps ops p' w')"
| "applyOps (EnterGroup name # ops) p w = (case WithGroup p name w of (p', w') \<Rightarrow> applyOps ops p' w')"

fun specChain :: "string list \<Rightarrow> 't ChainOp list \<Rightarrow> (string list \<times> 't Attr) list" where
  "specChain path [] = []"
| "specChain path (Bind as # ops) = map (Pair path) as @ specChain path ops"
| "specChain path (EnterGroup name # ops) =
     specChain (if name = [] then path else path @ [name]) ops"

fun opsAttrs :: "'t ChainOp list \<Rightarrow> 't Attr list" where
  "opsAttrs [] = []"
| "opsAttrs (Bind as # ops) = as @ opsAttrs ops"
| "opsAttrs (EnterGroup name # ops) = opsAttrs ops"

fun opsPath :: "'t ChainOp list \<Rightarrow> string list" where
  "opsPath [] = []"
| "opsPath (Bind as # ops) = opsPath ops"
| "opsPath (EnterGroup name # ops) = (if name = [] then opsPath ops else name # opsPath ops)"

text \<open>
  The text of a context chain as the specification describes it: each attribute with the
  group path it is tagged with.
\<close>

definition chainText :: "'t Lib \<Rightarrow> (string list \<times> 't Attr) list \<Rightarrow> string" where
  "chainText lib chain = concat (map (\<lambda>ga. attrText lib (fst ga) (snd ga)) chain)"

text \<open>
  The states the operations produce: every handler's \<open>pool\<close> field is the address of a
  pool of the state.
\<close>

definition validWorld :: "('t, 's) World \<Rightarrow> bool" where
  "validWorld w = list_all (\<lambda>h. pool h < length (pools w)) (handlers w)"

section \<open>Example inputs\<close>

text \<open>
  A library instance whose times are either unset (\<open>False\<close>) or 2025/11/14 14:03:14
  (\<open>True\<close>); a destination that appends what it receives to the outside state, as a
  \<open>bytes.Buffer\<close> does; a destination that always fails; the empty program state.
\<close>

definition exLib :: "bool Lib" where
  "exLib = \<lparr>IsZero = (\<lambda>t. \<not> t), Date = (\<lambda>t. (2025, 11, 14)), Clock = (\<lambda>t. (14, 3, 14)),
     Format = (\<lambda>t layout. layout), AppendFloat = (\<lambda>f. ''0''), DurationString = (\<lambda>d. ''0s''),
     CallersFrame = (\<lambda>pc. (''main.go'', 10))\<rparr>"

definition bufferWriter :: "string Writer" where
  "bufferWriter b s = ((int (length b), None), s @ b)"

definition failingWriter :: "'s Writer" where
  "failingWriter b s = ((0, Some (Error ''disk full'')), s)"

definition emptyWorld :: "'s \<Rightarrow> ('t, 's) World" where
  "emptyWorld s = \<lparr>handlers = [], pools = [], ext = s\<rparr>"

definition exRecord :: "bool \<Rightarrow> string \<Rightarrow> bool Attr list \<Rightarrow> bool Record" where
  "exRecord t msg as = \<lparr>rTime = t, rMessage = msg, rLevel = LevelInfo, rPC = 0, rAttrs = as\<rparr>"

text \<open>
  \<open>logAfter ops t msg as\<close>: the bytes in the destination after a handler is made by
  \<open>New\<close> with nil options, the chain operations \<open>ops\<close> are applied to it, and the
  resulting handler handles one Info record.
\<close>

definition logAfter :: "bool ChainOp list \<Rightarrow> bool \<Rightarrow> string \<Rightarrow> bool Attr list \<Rightarrow> string" where
  "logAfter ops t msg as =
     (case New bufferWriter None (emptyWorld []) of (p0, w0) \<Rightarrow>
        (case applyOps ops p0 w0 of (p, w) \<Rightarrow>
           ext (snd (Handle exLib p (exRecord t msg as) w))))"

text \<open>
  Program states with one handler made by \<open>New\<close>: over the failing destination, over the
  buffer destination, and with a \<open>LevelVar\<close> cell (holding Info) as its leveler.
\<close>

definition failWorld :: "(bool, unit) World" where
  "failWorld = snd (New failingWriter None (emptyWorld ()))"

definition bufWorld :: "(bool, string) World" where
  "bufWorld = snd (New bufferWriter None (emptyWorld []))"

definition levelVarWorld :: "(bool, nat \<Rightarrow> int) World" where
  "levelVarWorld =
     snd (New failingWriter (Some (zeroOptions\<lparr>Level := Some (LevelVar_Level 0)\<rparr>))
            (emptyWorld (\<lambda>v. LevelInfo)))"

text \<open>
  The hook of the repository's test \<open>TestHandler_ReplaceAttr\<close>, which drops the key
  \<open>password\<close>, and a handler that calls it and logs the calls.
\<close>

definition dropPassword :: "string list \<Rightarrow> bool Attr \<Rightarrow> bool Attr" where
  "dropPassword gs a = (if Key a = ''password'' then emptyAttr else a)"


text \<open>
  The handler reached from a fresh one (\<open>New\<close> with nil options, over the buffer
  destination) by a chain of operations; the chain of the specification's scenario, which
  binds \<open>service=api\<close> and then enters the group \<open>request\<close>.
\<close>

definition chainHandler :: "bool ChainOp list \<Rightarrow> (bool, string) Handler" where
  "chainHandler ops =
     (case New bufferWriter None (emptyWorld []) of (p0, w0) \<Rightarrow>
        (case applyOps ops p0 w0 of (p, w) \<Rightarrow> handlers w ! p))"

definition serviceThenGroup :: "bool ChainOp list" where
  "serviceThenGroup = [Bind [Attr ''service'' (StringValue ''api'')], EnterGroup ''request'']"

text \<open>
  A destination that takes one byte at a time. The state after \<open>WithAttrs\<close> has derived a
  child (address 1, bound with \<open>k=v\<close>) from the handler at address 0; the steps of a call
  on the base with message \<open>b\<close> and of a call on the child with message \<open>a\<close>; and the
  schedule in which the child's call runs after the base has written its first five bytes.
\<close>

definition byteSplit :: "string \<Rightarrow> string list" where
  "byteSplit b = map (\<lambda>c. [c]) b"

definition childWorld :: "(bool, string) World" where
  "childWorld = snd (WithAttrs 0 [Attr ''k'' (StringValue ''v'')] bufWorld)"

definition baseSteps :: "Action list" where
  "baseSteps = Handle_steps exLib byteSplit 0 (exRecord False ''b'' []) childWorld"

definition childSteps :: "Action list" where
  "childSteps = Handle_steps exLib byteSplit 1 (exRecord False ''a'' []) childWorld"

definition mixedSchedule :: "Action list" where
  "mixedSchedule = take 6 baseSteps @ childSteps @ drop 6 baseSteps"

section \<open>Theorems\<close>

subsection \<open>Decimal text and zero padding\<close>

lemma digitChar_isDigit: "d < 10 \<Longrightarrow> isDigit (digitChar d)"
proof -
  assume "d < 10"
  then have "d \<in> {0, 1, 2, 3, 4, 5, 6, 7, 8, 9}" by auto
  then show ?thesis
    by (auto simp: digitChar_def isDigit_def)
qed

lemma digitVal_digitChar: "d < 10 \<Longrightarrow> digitVal (digitChar d) = d"
proof -
  assume "d < 10"
  then have "d \<in> {0, 1, 2, 3, 4, 5, 6, 7, 8, 9}" by auto
  then show ?thesis
    by (auto simp: digitChar_def digitVal_def)
qed

lemma formatUint_digits: "\<forall>c \<in> set (formatUint n). isDigit c"
proof (induction n rule: formatUint.induct)
  case (1 n)
  show ?case
  proof (cases "n < 10")
    case True
    then show ?thesis
      by (subst formatUint.simps) (simp add: digitChar_isDigit)
  next
    case False
    with 1 show ?thesis
      by (subst formatUint.simps) (simp add: digitChar_isDigit)
  qed
qed

lemma formatUint_nonempty: "formatUint n \<noteq> []"
  by (subst formatUint.simps) simp

lemma decimalValue_snoc: "decimalValue (s @ [c]) = 10 * decimalValue s + digitVal c"
  by (simp add: decimalValue_def)

lemma formatUint_value: "decimalValue (formatUint n) = n"
proof (induction n rule: formatUint.induct)
  case (1 n)
  show ?case
  proof (cases "n < 10")
    case True
    then show ?thesis
      by (subst formatUint.simps) (simp add: decimalValue_def digitVal_digitChar)
  next
    case False
    with 1 show ?thesis
      by (subst formatUint.simps) (simp add: decimalValue_snoc digitVal_digitChar)
  qed
qed

lemma formatUint_no_leading_zero: "0 < n \<Longrightarrow> hd (formatUint n) \<noteq> CHR ''0''"
proof (induction n rule: formatUint.induct)
  case (1 n)
  show ?case
  proof (cases "n < 10")
    case True
    with 1(2) have "n \<in> {1, 2, 3, 4, 5, 6, 7, 8, 9}" by auto
    then show ?thesis
      by (subst formatUint.simps) (auto simp: digitChar_def)
  next
    case False
    then have "0 < n div 10" by simp
    with 1(1) False have "hd (formatUint (n div 10)) \<noteq> CHR ''0''" by simp
    with False show ?thesis
      by (subst formatUint.simps) (simp add: formatUint_nonempty)
  qed
qed

lemma appendNul_eq: "appendNul i padding buf = buf @ replicate (padding - i) (CHR 0x00)"
proof (induction i padding buf rule: appendNul.induct)
  case (1 i padding buf)
  show ?case
  proof (cases "i < padding")
    case True
    then have "padding - i = Suc (padding - Suc i)" by simp
    with 1 True show ?thesis
      by (subst appendNul.simps) (simp add: replicate_app_Cons_same)
  next
    case False
    then show ?thesis by (subst appendNul.simps) simp
  qed
qed

lemma fillZero_eq:
  "i \<le> padding \<Longrightarrow> start + padding \<le> length buf \<Longrightarrow>
   fillZero i padding start buf =
     take (start + i) buf @ replicate (padding - i) (CHR ''0'') @ drop (start + padding) buf"
proof (induction i padding start buf rule: fillZero.induct)
  case (1 i padding start buf)
  show ?case
  proof (cases "i < padding")
    case True
    then have p: "padding - i = Suc (padding - Suc i)" by simp
    from True 1(3) have lt: "start + i < length buf" by simp
    have "fillZero i padding start buf = fillZero (Suc i) padding start (buf[start + i := CHR ''0''])"
      using True by (subst fillZero.simps) simp
    also have "\<dots> = take (start + Suc i) (buf[start + i := CHR ''0'']) @
        replicate (padding - Suc i) (CHR ''0'') @ drop (start + padding) (buf[start + i := CHR ''0''])"
      using 1 True by simp
    also have "take (start + Suc i) (buf[start + i := CHR ''0'']) = take (start + i) buf @ [CHR ''0'']"
      using lt by (simp add: take_Suc_conv_app_nth)
    also have "drop (start + padding) (buf[start + i := CHR ''0'']) = drop (start + padding) buf"
      using True by simp
    finally show ?thesis using p by simp
  next
    case False
    with 1(2) have "i = padding" by simp
    then show ?thesis by (subst fillZero.simps) simp
  qed
qed

lemma appendInt_eq_zeroFill: "appendInt buf n width = zeroFill buf n width"
proof (cases "int (length (formatInt n)) < width")
  case False
  then show ?thesis by (simp add: appendInt_def zeroFill_def Let_def)
next
  case True
  define d where "d = formatInt n"
  define p where "p = nat (width - int (length d))"
  have "appendInt buf n width =
      fillZero 0 p (length buf)
        (copySlice (buf @ d @ replicate p (CHR 0x00)) (length buf + p)
           (slice (buf @ d @ replicate p (CHR 0x00)) (length buf) (length buf + length d)))"
    using True by (simp add: appendInt_def Let_def appendNul_eq d_def p_def)
  also have "slice (buf @ d @ replicate p (CHR 0x00)) (length buf) (length buf + length d) = d"
    by (simp add: slice_def)
  also have "copySlice (buf @ d @ replicate p (CHR 0x00)) (length buf + p) d =
      buf @ take p (d @ replicate p (CHR 0x00)) @ d"
    by (simp add: copySlice_def Let_def)
  also have "fillZero 0 p (length buf) (buf @ take p (d @ replicate p (CHR 0x00)) @ d) =
      buf @ replicate p (CHR ''0'') @ d"
    by (subst fillZero_eq) (simp_all add: min_def)
  finally show ?thesis by (simp add: zeroFill_def d_def p_def)
qed

lemma appendInt_buf: "appendInt buf n width = buf @ appendInt [] n width"
  by (simp add: appendInt_eq_zeroFill zeroFill_def)

lemma formatInt_nonneg_digits: "0 \<le> n \<Longrightarrow> \<forall>c \<in> set (formatInt n). isDigit c"
  by (simp add: formatInt_def formatUint_digits)

lemma isDigit_not_NUL: "isDigit c \<Longrightarrow> c \<noteq> CHR 0x00"
  by (auto simp: isDigit_def)

lemma appendInt_fill_in_range:
  "int (length (formatInt n)) < width \<Longrightarrow>
   length buf + nat (width - int (length (formatInt n))) \<le>
     length (copySlice (appendNul 0 (nat (width - int (length (formatInt n)))) (buf @ formatInt n))
               (length buf + nat (width - int (length (formatInt n))))
               (slice (appendNul 0 (nat (width - int (length (formatInt n)))) (buf @ formatInt n))
                  (length buf)
                  (length (appendNul 0 (nat (width - int (length (formatInt n)))) (buf @ formatInt n))
                     - nat (width - int (length (formatInt n))))))"
  by (simp add: appendNul_eq copySlice_def slice_def Let_def)

text \<open>
  Claim C9. For a non-negative \<open>n\<close>, \<open>appendInt buf n width\<close> returns \<open>buf\<close> followed by
  the minimal decimal text of \<open>n\<close> (digits only, of value \<open>n\<close>, no leading zero, \<open>0\<close>
  for zero) padded on the left with \<open>'0'\<close> up to \<open>width\<close> characters, and unpadded when
  the text is already that long. No NUL byte is left in what was appended, and the result
  is that of padding by direct zero-fill (\<open>zeroFill\<close>).
\<close>

theorem appendInt_zero_padded:
  "0 \<le> n \<Longrightarrow>
   appendInt buf n width = zeroFill buf n width \<and>
   appendInt buf n width =
     buf @ replicate (nat (width - int (length (formatInt n)))) (CHR ''0'') @ formatInt n \<and>
   (\<forall>c \<in> set (formatInt n). isDigit c) \<and>
   int (decimalValue (formatInt n)) = n \<and>
   (0 < n \<longrightarrow> hd (formatInt n) \<noteq> CHR ''0'') \<and>
   formatInt 0 = ''0'' \<and>
   CHR 0x00 \<notin> set (drop (length buf) (appendInt buf n width))"
proof -
  assume n: "0 \<le> n"
  have d: "\<forall>c \<in> set (formatInt n). isDigit c"
    using n by (rule formatInt_nonneg_digits)
  have z: "formatInt 0 = ''0''"
    by (simp add: formatInt_def formatUint.simps digitChar_def)
  have v: "int (decimalValue (formatInt n)) = n"
    using n by (simp add: formatInt_def formatUint_value)
  have l: "0 < n \<longrightarrow> hd (formatInt n) \<noteq> CHR ''0''"
    using n by (simp add: formatInt_def formatUint_no_leading_zero)
  have e: "appendInt buf n width =
      buf @ replicate (nat (width - int (length (formatInt n)))) (CHR ''0'') @ formatInt n"
    by (simp add: appendInt_eq_zeroFill zeroFill_def)
  have "CHR 0x00 \<notin> set (replicate (nat (width - int (length (formatInt n)))) (CHR ''0'') @ formatInt n)"
    using d isDigit_not_NUL by auto
  then have nn: "CHR 0x00 \<notin> set (drop (length buf) (appendInt buf n width))"
    by (simp only: e) simp
  show ?thesis using appendInt_eq_zeroFill d z v l e nn by blast
qed

text \<open>Claim C9 at \<open>n = 7\<close>, \<open>width = 2\<close>, after the bytes \<open>t=\<close>.\<close>

theorem appendInt_zero_padded_witness:
  "(0::int) \<le> 7 \<and> appendInt ''t='' 7 2 = ''t=07'' \<and> zeroFill ''t='' 7 2 = ''t=07''
     \<and> CHR 0x00 \<notin> set (drop 2 (appendInt ''t='' 7 2))"
proof -
  have h: "(0::int) \<le> 7" by simp
  have f7: "formatInt 7 = ''7''"
    by (simp add: formatInt_def formatUint.simps digitChar_def)
  have z: "zeroFill ''t='' 7 2 = ''t=07''"
    by (simp add: zeroFill_def f7)
  have "appendInt ''t='' 7 2 =
      ''t='' @ replicate (nat (2 - int (length (formatInt 7)))) (CHR ''0'') @ formatInt 7"
    using appendInt_zero_padded [OF h, of "''t=''" 2] by blast
  then have a: "appendInt ''t='' 7 2 = ''t=07''"
    by (simp add: f7)
  show ?thesis by (simp add: z a)
qed

subsection \<open>Every append function extends the buffer it is given\<close>

lemma appendGroups_eq: "appendGroups buf gs = buf @ concat (map (\<lambda>g. g @ ''.'') gs)"
  by (induction gs arbitrary: buf) simp_all

lemma appendValue_prepend:
  "appendValue lib (pre @ buf) v = pre @ appendValue lib buf v"
  "appendGroupLoop lib (pre @ buf) i as = pre @ appendGroupLoop lib buf i as"
  "appendGroupEntry lib (pre @ buf) a = pre @ appendGroupEntry lib buf a"
proof (induction lib buf v and lib buf i as and lib buf a arbitrary: pre and pre and pre
    rule: appendValue_appendGroupLoop_appendGroupEntry.induct)
  case (8 lib buf as)
  show ?case
  proof (cases "length as = 0")
    case True
    then show ?thesis by simp
  next
    case False
    have "appendGroupLoop lib (pre @ (buf @ ''{'')) 0 as = pre @ appendGroupLoop lib (buf @ ''{'') 0 as"
      using 8 False by blast
    then show ?thesis using False by simp
  qed
next
  case (11 lib buf i a as)
  define X where "X = (if 0 < i then buf @ '' '' else buf)"
  have e: "appendGroupEntry lib (pre @ X) a = pre @ appendGroupEntry lib X a"
    using 11(1) by (simp only: X_def)
  have l: "appendGroupLoop lib (pre @ appendGroupEntry lib X a) (Suc i) as =
      pre @ appendGroupLoop lib (appendGroupEntry lib X a) (Suc i) as"
    using 11(2) by (simp only: X_def)
  have "(if 0 < i then (pre @ buf) @ '' '' else pre @ buf) = pre @ X"
    by (simp add: X_def)
  then have "appendGroupLoop lib (pre @ buf) i (a # as) =
      appendGroupLoop lib (appendGroupEntry lib (pre @ X) a) (Suc i) as"
    by (simp only: appendGroupLoop.simps)
  also have "\<dots> = pre @ appendGroupLoop lib (appendGroupEntry lib X a) (Suc i) as"
    by (simp only: e l)
  also have "appendGroupLoop lib (appendGroupEntry lib X a) (Suc i) as = appendGroupLoop lib buf i (a # as)"
    by (simp only: appendGroupLoop.simps X_def)
  finally show ?case .
next
  case (12 lib buf k v)
  have "appendValue lib (pre @ (buf @ k @ ''='')) v = pre @ appendValue lib (buf @ k @ ''='') v"
    using 12 by blast
  then show ?case by simp
qed simp_all

lemma appendValue_buf: "appendValue lib buf v = buf @ appendValue lib [] v"
  using appendValue_prepend(1) [of lib buf "[]" v] by simp

lemma appendTime_buf: "appendTime lib h buf t = buf @ appendTime lib h [] t"
proof (cases "TimeFormat (opts h) = ''2006/01/02 15:04:05''")
  case False
  then show ?thesis by (simp add: appendTime_def)
next
  case True
  obtain y mo d where dt: "Date lib t = (y, mo, d)" by (cases "Date lib t") auto
  obtain hh mi ss where ck: "Clock lib t = (hh, mi, ss)" by (cases "Clock lib t") auto
  show ?thesis
    using True by (simp add: appendTime_def dt ck appendInt_eq_zeroFill zeroFill_def)
qed

lemma appendAttr_buf:
  "appendAttr lib h buf gs a s =
     (buf @ fst (appendAttr lib h [] gs a s), snd (appendAttr lib h [] gs a s))"
proof -
  obtain a' s' where k: "(case ReplaceAttr (opts h) of None \<Rightarrow> (a, s) | Some f \<Rightarrow> f gs a s) = (a', s')"
    by (cases "case ReplaceAttr (opts h) of None \<Rightarrow> (a, s) | Some f \<Rightarrow> f gs a s") auto
  have v: "appendValue lib (buf @ CHR '' '' # concat (map (\<lambda>g. g @ ''.'') gs) @ Key a' @ ''='') (Val a') =
      buf @ appendValue lib (CHR '' '' # concat (map (\<lambda>g. g @ ''.'') gs) @ Key a' @ ''='') (Val a')"
    by (rule appendValue_prepend(1))
  show ?thesis
    using v by (simp add: appendAttr_def k appendGroups_eq Let_def)
qed

lemma appendAttrs_buf:
  "appendAttrs lib h gs buf as s =
     (buf @ fst (appendAttrs lib h gs [] as s), snd (appendAttrs lib h gs [] as s))"
proof (induction as arbitrary: buf s)
  case Nil
  show ?case by simp
next
  case (Cons a as)
  obtain x s1 where a1: "appendAttr lib h [] gs a s = (x, s1)"
    by (cases "appendAttr lib h [] gs a s") auto
  have a2: "appendAttr lib h buf gs a s = (buf @ x, s1)"
    by (subst appendAttr_buf) (simp add: a1)
  have l: "appendAttrs lib h gs buf (a # as) s =
      ((buf @ x) @ fst (appendAttrs lib h gs [] as s1), snd (appendAttrs lib h gs [] as s1))"
    using Cons.IH [of "buf @ x" s1] by (simp add: a2)
  have r: "appendAttrs lib h gs [] (a # as) s =
      (x @ fst (appendAttrs lib h gs [] as s1), snd (appendAttrs lib h gs [] as s1))"
    using Cons.IH [of x s1] by (simp add: a1)
  show ?case unfolding l r by simp
qed

lemma appendAttr_text:
  "appendAttr lib h buf gs a s =
     (case (case ReplaceAttr (opts h) of None \<Rightarrow> (a, s) | Some f \<Rightarrow> f gs a s) of
        (a', s') \<Rightarrow> (buf @ attrText lib gs a', s'))"
proof -
  obtain a' s' where k: "(case ReplaceAttr (opts h) of None \<Rightarrow> (a, s) | Some f \<Rightarrow> f gs a s) = (a', s')"
    by (cases "case ReplaceAttr (opts h) of None \<Rightarrow> (a, s) | Some f \<Rightarrow> f gs a s") auto
  have v: "appendValue lib (buf @ CHR '' '' # concat (map (\<lambda>g. g @ ''.'') gs) @ Key a' @ ''='') (Val a') =
      (buf @ CHR '' '' # concat (map (\<lambda>g. g @ ''.'') gs) @ Key a' @ ''='') @ appendValue lib [] (Val a')"
    by (rule appendValue_buf)
  show ?thesis
    using v by (simp add: appendAttr_def k appendGroups_eq Let_def attrText_def)
qed

lemma appendAttr_None:
  "ReplaceAttr (opts h) = None \<Longrightarrow> appendAttr lib h buf gs a s = (buf @ attrText lib gs a, s)"
  by (simp add: appendAttr_text)

lemma appendAttr_hookOf:
  "ReplaceAttr (opts h) = Some (hookOf f u) \<Longrightarrow>
   appendAttr lib h buf gs a s = (buf @ attrText lib gs (f gs a), u gs a s)"
  by (simp add: appendAttr_text hookOf_def)

lemma appendAttrs_None:
  "ReplaceAttr (opts h) = None \<Longrightarrow>
   appendAttrs lib h gs buf as s = (buf @ concat (map (attrText lib gs) as), s)"
  by (induction as arbitrary: buf s) (simp_all add: appendAttr_None)

lemma appendAttrs_hookOf:
  "ReplaceAttr (opts h) = Some (hookOf f u) \<Longrightarrow>
   appendAttrs lib h gs buf as s =
     (buf @ concat (map (\<lambda>a. attrText lib gs (f gs a)) as), foldl (\<lambda>s a. u gs a s) s as)"
  by (induction as arbitrary: buf s) (simp_all add: appendAttr_hookOf)

lemma Handle_line_parts:
  "Handle_line lib h r buf s =
     (buf @ Handle_head lib h r
        @ fst (appendAttrs lib h (groups h) [] (attrs h) s)
        @ ''msg='' @ rMessage r
        @ fst (appendAttrs lib h (groups h) [] (rAttrs r) (snd (appendAttrs lib h (groups h) [] (attrs h) s)))
        @ [CHR 0x0A],
      snd (appendAttrs lib h (groups h) [] (rAttrs r) (snd (appendAttrs lib h (groups h) [] (attrs h) s))))"
proof -
  obtain B s1 where B: "appendAttrs lib h (groups h) [] (attrs h) s = (B, s1)"
    by (cases "appendAttrs lib h (groups h) [] (attrs h) s") auto
  obtain C s2 where C: "appendAttrs lib h (groups h) [] (rAttrs r) s1 = (C, s2)"
    by (cases "appendAttrs lib h (groups h) [] (rAttrs r) s1") auto
  have Bgen: "appendAttrs lib h (groups h) b (attrs h) s = (b @ B, s1)" for b
    by (subst appendAttrs_buf) (simp add: B)
  have Cgen: "appendAttrs lib h (groups h) b (rAttrs r) s1 = (b @ C, s2)" for b
    by (subst appendAttrs_buf) (simp add: C)
  have t: "appendTime lib h buf (rTime r) = buf @ appendTime lib h [] (rTime r)"
    by (rule appendTime_buf)
  have "Handle_line lib h r buf s =
      (buf @ Handle_head lib h r @ B @ ''msg='' @ rMessage r @ C @ [CHR 0x0A], s2)"
    by (simp add: Handle_line_def Let_def Bgen Cgen t Handle_head_def split_beta)
  then show ?thesis by (simp add: B C)
qed

lemma Handle_line_bound:
  "fst (Handle_line lib h r buf s) =
     buf @ Handle_head lib h r @ Handle_bound lib h s @ ''msg='' @ rMessage r
       @ fst (appendAttrs lib h (groups h) [] (rAttrs r) (snd (appendAttrs lib h (groups h) [] (attrs h) s)))
       @ [CHR 0x0A]"
  by (simp add: Handle_line_parts Handle_bound_def)

lemma appendAttrs_hook:
  "ReplaceAttr (opts h) = Some k \<Longrightarrow>
   appendAttrs lib h gs buf as s =
     (buf @ concat (map (attrText lib gs) (fst (rewriteAll k gs as s))), snd (rewriteAll k gs as s))"
proof (induction as arbitrary: buf s)
  case Nil
  show ?case by simp
next
  case (Cons a as)
  obtain a' s' where k: "k gs a s = (a', s')" by (cases "k gs a s") auto
  have "appendAttr lib h buf gs a s = (buf @ attrText lib gs a', s')"
    using Cons.prems by (simp add: appendAttr_text k)
  then have "appendAttrs lib h gs buf (a # as) s = appendAttrs lib h gs (buf @ attrText lib gs a') as s'"
    by simp
  also have "\<dots> = ((buf @ attrText lib gs a') @ concat (map (attrText lib gs) (fst (rewriteAll k gs as s'))),
      snd (rewriteAll k gs as s'))"
    by (rule Cons.IH [OF Cons.prems])
  finally show ?case by (simp add: k split_beta)
qed


lemma Handle_head_withHook [simp]: "Handle_head lib (withHook h k) r = Handle_head lib h r"
  by (simp add: Handle_head_def withHook_def appendTime_def)

lemma Handle_head_attrs [simp]: "Handle_head lib (h\<lparr>attrs := as\<rparr>) r = Handle_head lib h r"
  by (simp add: Handle_head_def appendTime_def)

lemma Handle_head_rAttrs [simp]: "Handle_head lib h (r\<lparr>rAttrs := as\<rparr>) = Handle_head lib h r"
  by (simp add: Handle_head_def)



lemma Handle_line_head: "prefix (Handle_head lib h r) (fst (Handle_line lib h r [] s))"
  by (simp add: Handle_line_parts)

lemma appendTime_default:
  "TimeFormat (opts h) = ''2006/01/02 15:04:05'' \<Longrightarrow>
   appendTime lib h [] t =
     zeroFill [] (fst (Date lib t)) 4 @ ''/'' @ zeroFill [] (fst (snd (Date lib t))) 2 @ ''/''
       @ zeroFill [] (snd (snd (Date lib t))) 2 @ '' ''
       @ zeroFill [] (fst (Clock lib t)) 2 @ '':'' @ zeroFill [] (fst (snd (Clock lib t))) 2 @ '':''
       @ zeroFill [] (snd (snd (Clock lib t))) 2"
  by (simp add: appendTime_def split_beta Let_def appendInt_eq_zeroFill zeroFill_def)

subsection \<open>Handler objects and chains\<close>

lemma copySlice_attrs:
  "copySlice (copySlice (replicate (length xs + length ys) z) 0 xs) (length xs) ys = xs @ ys"
  by (simp add: copySlice_def Let_def min_def)

lemma copySlice_groups:
  "(copySlice (replicate (length xs + 1) z) 0 xs)[length xs := x] = xs @ [x]"
proof -
  have r: "replicate (length xs + 1) z = replicate (length xs) z @ [z]"
    by (simp add: replicate_append_same)
  have "copySlice (replicate (length xs) z @ [z]) 0 xs = xs @ [z]"
    by (simp add: copySlice_def Let_def min_def)
  then show ?thesis
    by (simp only: r) (simp add: list_update_append)
qed

lemma WithAttrs_eq:
  "as \<noteq> [] \<Longrightarrow>
   WithAttrs p as w =
     (length (handlers w),
      w\<lparr>handlers := handlers w @ [(handlers w ! p)\<lparr>attrs := attrs (handlers w ! p) @ as\<rparr>]\<rparr>)"
  by (simp add: WithAttrs_def Let_def copySlice_attrs)

lemma WithGroup_eq:
  "name \<noteq> [] \<Longrightarrow>
   WithGroup p name w =
     (length (handlers w),
      w\<lparr>handlers := handlers w @ [(handlers w ! p)\<lparr>groups := groups (handlers w ! p) @ [name]\<rparr>]\<rparr>)"
  using copySlice_groups [of "groups (handlers w ! p)" "[]" name]
  by (simp add: WithGroup_def Let_def del: replicate_Suc)

lemma applyOps_result:
  "p < length (handlers w) \<Longrightarrow> applyOps ops p w = (p', w') \<Longrightarrow>
   p' < length (handlers w') \<and>
   take (length (handlers w)) (handlers w') = handlers w \<and>
   pools w' = pools w \<and> ext w' = ext w \<and>
   handlers w' ! p' =
     (handlers w ! p)\<lparr>groups := groups (handlers w ! p) @ opsPath ops,
                       attrs := attrs (handlers w ! p) @ opsAttrs ops\<rparr>"
proof (induction ops arbitrary: p w)
  case Nil
  then show ?case by simp
next
  case (Cons op ops)
  show ?case
  proof (cases op)
    case (Bind as)
    show ?thesis
    proof (cases "as = []")
      case True
      then have "applyOps ops p w = (p', w')"
        using Cons.prems(2) Bind by (simp add: WithAttrs_def)
      from Cons.IH [OF Cons.prems(1) this] show ?thesis
        using Bind True by simp
    next
      case False
      define h1 where "h1 = (handlers w ! p)\<lparr>attrs := attrs (handlers w ! p) @ as\<rparr>"
      define w1 where "w1 = w\<lparr>handlers := handlers w @ [h1]\<rparr>"
      have run: "applyOps ops (length (handlers w)) w1 = (p', w')"
        using Cons.prems(2) Bind False by (simp add: WithAttrs_eq w1_def h1_def)
      have lt: "length (handlers w) < length (handlers w1)" by (simp add: w1_def)
      have ih: "p' < length (handlers w') \<and>
          take (length (handlers w1)) (handlers w') = handlers w1 \<and>
          pools w' = pools w1 \<and> ext w' = ext w1 \<and>
          handlers w' ! p' =
            (handlers w1 ! length (handlers w))\<lparr>groups := groups (handlers w1 ! length (handlers w)) @ opsPath ops,
               attrs := attrs (handlers w1 ! length (handlers w)) @ opsAttrs ops\<rparr>"
        by (rule Cons.IH [OF lt run])
      have tk: "take (length (handlers w)) (handlers w') = handlers w"
      proof -
        have "take (length (handlers w)) (take (length (handlers w1)) (handlers w')) = take (length (handlers w)) (handlers w1)"
          using ih by simp
        then show ?thesis by (simp add: w1_def min_def)
      qed
      show ?thesis using ih tk Bind by (simp add: w1_def h1_def)
    qed
  next
    case (EnterGroup name)
    show ?thesis
    proof (cases "name = []")
      case True
      then have "applyOps ops p w = (p', w')"
        using Cons.prems(2) EnterGroup by (simp add: WithGroup_def)
      from Cons.IH [OF Cons.prems(1) this] show ?thesis
        using EnterGroup True by simp
    next
      case False
      define h1 where "h1 = (handlers w ! p)\<lparr>groups := groups (handlers w ! p) @ [name]\<rparr>"
      define w1 where "w1 = w\<lparr>handlers := handlers w @ [h1]\<rparr>"
      have run: "applyOps ops (length (handlers w)) w1 = (p', w')"
        using Cons.prems(2) EnterGroup False by (simp add: WithGroup_eq w1_def h1_def)
      have lt: "length (handlers w) < length (handlers w1)" by (simp add: w1_def)
      have ih: "p' < length (handlers w') \<and>
          take (length (handlers w1)) (handlers w') = handlers w1 \<and>
          pools w' = pools w1 \<and> ext w' = ext w1 \<and>
          handlers w' ! p' =
            (handlers w1 ! length (handlers w))\<lparr>groups := groups (handlers w1 ! length (handlers w)) @ opsPath ops,
               attrs := attrs (handlers w1 ! length (handlers w)) @ opsAttrs ops\<rparr>"
        by (rule Cons.IH [OF lt run])
      have tk: "take (length (handlers w)) (handlers w') = handlers w"
      proof -
        have "take (length (handlers w)) (take (length (handlers w1)) (handlers w')) = take (length (handlers w)) (handlers w1)"
          using ih by simp
        then show ?thesis by (simp add: w1_def min_def)
      qed
      show ?thesis using ih tk EnterGroup False by (simp add: w1_def h1_def)
    qed
  qed
qed

lemma WithAttrs_frame:
  "take (length (handlers w)) (handlers (snd (WithAttrs p as w))) = handlers w \<and>
   pools (snd (WithAttrs p as w)) = pools w \<and> ext (snd (WithAttrs p as w)) = ext w"
  by (cases "as = []") (simp_all add: WithAttrs_eq, simp add: WithAttrs_def)

lemma WithGroup_frame:
  "take (length (handlers w)) (handlers (snd (WithGroup p name w))) = handlers w \<and>
   pools (snd (WithGroup p name w)) = pools w \<and> ext (snd (WithGroup p name w)) = ext w"
  by (cases "name = []") (simp_all add: WithGroup_eq, simp add: WithGroup_def)

lemma take_nth_same: "take n ys = xs \<Longrightarrow> q < length xs \<Longrightarrow> ys ! q = xs ! q"
  by (metis length_take min_less_iff_conj nth_take)

lemma newHandler_eq:
  "newHandler wr optsp w =
     \<lparr>opts = (case optsp of None \<Rightarrow> zeroOptions | Some x \<Rightarrow> x)
          \<lparr>TimeFormat := (if TimeFormat (case optsp of None \<Rightarrow> zeroOptions | Some x \<Rightarrow> x) = []
                           then ''2006/01/02 15:04:05''
                           else TimeFormat (case optsp of None \<Rightarrow> zeroOptions | Some x \<Rightarrow> x))\<rparr>,
      out = wr, pool = length (pools w), groups = [], attrs = []\<rparr>"
  by (cases optsp) (simp_all add: newHandler_def New_def Let_def)

lemma validWorld_empty: "validWorld (emptyWorld s)"
  by (simp add: validWorld_def emptyWorld_def)

lemma validWorld_nth:
  "validWorld w \<Longrightarrow> p < length (handlers w) \<Longrightarrow> pool (handlers w ! p) < length (pools w)"
  by (simp add: validWorld_def list_all_length)

lemma validWorld_New: "validWorld w \<Longrightarrow> validWorld (snd (New wr optsp w))"
  by (cases optsp) (auto simp: validWorld_def New_def Let_def list_all_iff)

lemma validWorld_WithAttrs:
  assumes "validWorld w" and "p < length (handlers w)"
  shows "validWorld (snd (WithAttrs p as w))"
proof (cases "as = []")
  case True
  then show ?thesis using assms(1) by (simp add: WithAttrs_def)
next
  case False
  then show ?thesis
    using assms(1) validWorld_nth [OF assms] by (simp add: WithAttrs_eq validWorld_def)
qed

lemma validWorld_WithGroup:
  assumes "validWorld w" and "p < length (handlers w)"
  shows "validWorld (snd (WithGroup p name w))"
proof (cases "name = []")
  case True
  then show ?thesis using assms(1) by (simp add: WithGroup_def)
next
  case False
  then show ?thesis
    using assms(1) validWorld_nth [OF assms] by (simp add: WithGroup_eq validWorld_def)
qed

lemma validWorld_Handle: "validWorld w \<Longrightarrow> validWorld (snd (Handle lib p r w))"
  by (simp add: validWorld_def Handle_def Let_def split_beta)

subsection \<open>The claims about the line format\<close>

text \<open>
  Claim C1 (the code departs from it). The README's own example: a handler made by \<open>New\<close>
  with nil options and bound with \<open>request_id=req-12345\<close> handles an Info record with two
  attributes. The README shows one space after \<open>INFO\<close> and one before \<open>msg=\<close>; the code
  writes two spaces after \<open>INFO\<close> and none before \<open>msg=\<close>.
\<close>

theorem bound_attr_runs_into_msg:
  "logAfter [Bind [Attr ''request_id'' (StringValue ''req-12345'')]] True ''start''
       [Attr ''method'' (StringValue ''GET''), Attr ''path'' (StringValue ''/api/users'')] =
     ''2025/11/14 14:03:14 INFO  request_id=req-12345msg=start method=GET path=/api/users'' @ [CHR 0x0A] \<and>
   logAfter [Bind [Attr ''request_id'' (StringValue ''req-12345'')]] True ''start''
       [Attr ''method'' (StringValue ''GET''), Attr ''path'' (StringValue ''/api/users'')] \<noteq>
     ''2025/11/14 14:03:14 INFO request_id=req-12345 msg=start method=GET path=/api/users'' @ [CHR 0x0A]"
proof -
  have a: "logAfter [Bind [Attr ''request_id'' (StringValue ''req-12345'')]] True ''start''
       [Attr ''method'' (StringValue ''GET''), Attr ''path'' (StringValue ''/api/users'')] =
     ''2025/11/14 14:03:14 INFO  request_id=req-12345msg=start method=GET path=/api/users'' @ [CHR 0x0A]"
    by code_simp
  show ?thesis by (simp only: a) simp
qed

text \<open>
  Claim C2 as the specification states it fails on the specification's own scenario: the
  attribute \<open>service=api\<close>, bound before the group \<open>request\<close> was entered, is written with
  the prefix \<open>request.\<close>, where the chain of the specification gives it none.
\<close>

theorem bind_time_prefix_counterexample:
  "Handle_bound exLib (chainHandler serviceThenGroup) [] = '' request.service=api'' \<and>
   chainText exLib (specChain [] serviceThenGroup) = '' service=api'' \<and>
   Handle_bound exLib (chainHandler serviceThenGroup) [] \<noteq> chainText exLib (specChain [] serviceThenGroup) \<and>
   logAfter serviceThenGroup False ''hi''
       [Attr ''method'' (StringValue ''GET''), Attr ''path'' (StringValue ''/x'')] =
     ''INFO  request.service=apimsg=hi request.method=GET request.path=/x'' @ [CHR 0x0A]"
proof -
  have a: "Handle_bound exLib (chainHandler serviceThenGroup) [] = '' request.service=api''"
    by code_simp
  have b: "chainText exLib (specChain [] serviceThenGroup) = '' service=api''"
    by code_simp
  have c: "logAfter serviceThenGroup False ''hi''
       [Attr ''method'' (StringValue ''GET''), Attr ''path'' (StringValue ''/x'')] =
     ''INFO  request.service=apimsg=hi request.method=GET request.path=/x'' @ [CHR 0x0A]"
    by code_simp
  show ?thesis by (simp only: a b c) simp
qed

text \<open>
  Claim C2, as amended. After any chain of \<open>bind\<close> and \<open>enterGroup\<close> operations the
  handler holds the attributes bound, in the order bound, and one group path: the names
  entered, in order. The bytes \<open>Handle\<close> emits for the bound attributes are their texts in
  that order (after the rewrite hook, when one is configured), every one prefixed by that
  whole path: the path of the handler that encodes the record, also for an attribute that
  was bound before a group was entered.
\<close>

theorem bound_attrs_take_encode_time_path:
  "p < length (handlers w) \<and> applyOps ops p w = (p', w') \<longrightarrow>
     attrs (handlers w' ! p') = attrs (handlers w ! p) @ opsAttrs ops \<and>
     groups (handlers w' ! p') = groups (handlers w ! p) @ opsPath ops \<and>
     (ReplaceAttr (opts (handlers w ! p)) = None \<longrightarrow>
        Handle_bound lib (handlers w' ! p') s =
          concat (map (attrText lib (groups (handlers w ! p) @ opsPath ops))
                    (attrs (handlers w ! p) @ opsAttrs ops))) \<and>
     (ReplaceAttr (opts (handlers w ! p)) = Some k \<longrightarrow>
        Handle_bound lib (handlers w' ! p') s =
          concat (map (attrText lib (groups (handlers w ! p) @ opsPath ops))
                    (fst (rewriteAll k (groups (handlers w ! p) @ opsPath ops)
                            (attrs (handlers w ! p) @ opsAttrs ops) s))))"
proof
  assume a: "p < length (handlers w) \<and> applyOps ops p w = (p', w')"
  define h where "h = handlers w ! p"
  define h' where "h' = handlers w' ! p'"
  have e: "h' = h\<lparr>groups := groups h @ opsPath ops, attrs := attrs h @ opsAttrs ops\<rparr>"
    using applyOps_result [of p w ops p' w'] a by (simp add: h_def h'_def)
  have n: "ReplaceAttr (opts h) = None \<longrightarrow>
      Handle_bound lib h' s = concat (map (attrText lib (groups h @ opsPath ops)) (attrs h @ opsAttrs ops))"
  proof
    assume "ReplaceAttr (opts h) = None"
    then have "ReplaceAttr (opts h') = None" by (simp add: e)
    from appendAttrs_None [OF this] show
      "Handle_bound lib h' s = concat (map (attrText lib (groups h @ opsPath ops)) (attrs h @ opsAttrs ops))"
      by (simp add: Handle_bound_def) (simp add: e)
  qed
  have k: "ReplaceAttr (opts h) = Some k \<longrightarrow>
      Handle_bound lib h' s =
        concat (map (attrText lib (groups h @ opsPath ops))
          (fst (rewriteAll k (groups h @ opsPath ops) (attrs h @ opsAttrs ops) s)))"
  proof
    assume "ReplaceAttr (opts h) = Some k"
    then have "ReplaceAttr (opts h') = Some k" by (simp add: e)
    from appendAttrs_hook [OF this] show
      "Handle_bound lib h' s =
        concat (map (attrText lib (groups h @ opsPath ops))
          (fst (rewriteAll k (groups h @ opsPath ops) (attrs h @ opsAttrs ops) s)))"
      by (simp add: Handle_bound_def) (simp add: e)
  qed
  show "attrs (handlers w' ! p') = attrs (handlers w ! p) @ opsAttrs ops \<and>
     groups (handlers w' ! p') = groups (handlers w ! p) @ opsPath ops \<and>
     (ReplaceAttr (opts (handlers w ! p)) = None \<longrightarrow>
        Handle_bound lib (handlers w' ! p') s =
          concat (map (attrText lib (groups (handlers w ! p) @ opsPath ops))
                    (attrs (handlers w ! p) @ opsAttrs ops))) \<and>
     (ReplaceAttr (opts (handlers w ! p)) = Some k \<longrightarrow>
        Handle_bound lib (handlers w' ! p') s =
          concat (map (attrText lib (groups (handlers w ! p) @ opsPath ops))
                    (fst (rewriteAll k (groups (handlers w ! p) @ opsPath ops)
                            (attrs (handlers w ! p) @ opsAttrs ops) s))))"
    using n k unfolding h_def [symmetric] h'_def [symmetric] by (simp add: e)
qed

text \<open>
  Claim C2, as amended, on the scenario of the counterexample: the handler reached from a
  fresh one by binding \<open>service=api\<close> and entering \<open>request\<close>.
\<close>

theorem bound_attrs_take_encode_time_path_witness:
  "attrs (handlers (snd (applyOps serviceThenGroup 0 bufWorld)) ! fst (applyOps serviceThenGroup 0 bufWorld)) =
     [Attr ''service'' (StringValue ''api'')] \<and>
   groups (handlers (snd (applyOps serviceThenGroup 0 bufWorld)) ! fst (applyOps serviceThenGroup 0 bufWorld)) =
     [''request''] \<and>
   Handle_bound exLib
     (handlers (snd (applyOps serviceThenGroup 0 bufWorld)) ! fst (applyOps serviceThenGroup 0 bufWorld)) [] =
     '' request.service=api''"
proof -
  obtain p' w' where r: "applyOps serviceThenGroup 0 bufWorld = (p', w')"
    by (cases "applyOps serviceThenGroup 0 bufWorld") auto
  have v: "0 < length (handlers bufWorld)"
    by (simp add: bufWorld_def New_def emptyWorld_def Let_def)
  have h0: "attrs (handlers bufWorld ! 0) = []" "groups (handlers bufWorld ! 0) = []"
      "ReplaceAttr (opts (handlers bufWorld ! 0)) = None"
    by (simp_all add: bufWorld_def New_def emptyWorld_def Let_def zeroOptions_def)
  have o: "opsAttrs serviceThenGroup = [Attr ''service'' (StringValue ''api'')]"
      "opsPath serviceThenGroup = [''request'']"
    by (simp_all add: serviceThenGroup_def)
  have t: "attrText exLib [''request''] (Attr ''service'' (StringValue ''api'')) = '' request.service=api''"
    by (simp add: attrText_def emptyAttr_def)
  from bound_attrs_take_encode_time_path [of 0 bufWorld serviceThenGroup p' w' exLib "[]"
      "hookOf dropPassword (\<lambda>gs a s. s)"] v r h0
  show ?thesis by (simp add: o t)
qed

text \<open>
  Claim C5 (the code departs from it). \<open>appendValue\<close> appends nothing for a group with no
  entries, but \<open>appendAttr\<close> has already appended the space, the key and \<open>=\<close>: an
  attribute \<open>g\<close> whose value is the empty group contributes the three bytes \<open> g=\<close>.
\<close>

theorem empty_group_attr_emits_key:
  "appendValue exLib [] (GroupValue []) = [] \<and>
   fst (appendAttr exLib (chainHandler []) [] [] (Attr ''g'' (GroupValue [])) []) = '' g='' \<and>
   logAfter [Bind [Attr ''g'' (GroupValue [])]] False ''hi'' [] = ''INFO  g=msg=hi'' @ [CHR 0x0A] \<and>
   logAfter [] False ''hi'' [] = ''INFO msg=hi'' @ [CHR 0x0A]"
proof -
  have a: "appendValue exLib [] (GroupValue []) = []" by simp
  have b: "fst (appendAttr exLib (chainHandler []) [] [] (Attr ''g'' (GroupValue [])) []) = '' g=''"
    by code_simp
  have c: "logAfter [Bind [Attr ''g'' (GroupValue [])]] False ''hi'' [] = ''INFO  g=msg=hi'' @ [CHR 0x0A]"
    by code_simp
  have d: "logAfter [] False ''hi'' [] = ''INFO msg=hi'' @ [CHR 0x0A]"
    by code_simp
  show ?thesis using a b c d by blast
qed



text \<open>
  Claim C10. The handler \<open>New\<close> returns never has the empty time format: with nil options
  or an empty \<open>TimeFormat\<close> it has the default layout. So a record whose time is set gets
  a line that starts with the timestamp (in the default layout: year, month, day, hour,
  minute and second, zero-padded), a space and the level; a record whose time is unset
  gets a line that starts with the level; and so does any record once the handler's
  \<open>TimeFormat\<close> field has been set to the empty string after construction.
\<close>

theorem New_time_format_default:
  "TimeFormat (opts (newHandler wr optsp w)) \<noteq> [] \<and>
   (optsp = None \<longrightarrow> TimeFormat (opts (newHandler wr optsp w)) = ''2006/01/02 15:04:05'') \<and>
   (optsp = Some x \<and> TimeFormat x = [] \<longrightarrow>
      TimeFormat (opts (newHandler wr optsp w)) = ''2006/01/02 15:04:05'') \<and>
   (\<not> IsZero lib (rTime r) \<longrightarrow>
      prefix (appendTime lib (newHandler wr optsp w) [] (rTime r) @ '' '' @ levelString (rLevel r) @ '' '')
        (fst (Handle_line lib (newHandler wr optsp w) r [] s))) \<and>
   (TimeFormat (opts (newHandler wr optsp w)) = ''2006/01/02 15:04:05'' \<longrightarrow>
      appendTime lib (newHandler wr optsp w) [] (rTime r) =
        zeroFill [] (fst (Date lib (rTime r))) 4 @ ''/''
          @ zeroFill [] (fst (snd (Date lib (rTime r)))) 2 @ ''/''
          @ zeroFill [] (snd (snd (Date lib (rTime r)))) 2 @ '' ''
          @ zeroFill [] (fst (Clock lib (rTime r))) 2 @ '':''
          @ zeroFill [] (fst (snd (Clock lib (rTime r)))) 2 @ '':''
          @ zeroFill [] (snd (snd (Clock lib (rTime r)))) 2) \<and>
   (IsZero lib (rTime r) \<longrightarrow>
      prefix (levelString (rLevel r) @ '' '') (fst (Handle_line lib (newHandler wr optsp w) r [] s))) \<and>
   prefix (levelString (rLevel r) @ '' '')
     (fst (Handle_line lib
        ((newHandler wr optsp w)\<lparr>opts := (opts (newHandler wr optsp w))\<lparr>TimeFormat := []\<rparr>\<rparr>) r [] s))"
proof -
  define h where "h = newHandler wr optsp w"
  have ne: "TimeFormat (opts h) \<noteq> []"
    by (cases optsp) (simp_all add: h_def newHandler_eq)
  have d1: "optsp = None \<longrightarrow> TimeFormat (opts h) = ''2006/01/02 15:04:05''"
    by (simp add: h_def newHandler_eq zeroOptions_def)
  have d2: "optsp = Some x \<and> TimeFormat x = [] \<longrightarrow> TimeFormat (opts h) = ''2006/01/02 15:04:05''"
    by (simp add: h_def newHandler_eq)
  have pre: "prefix (a @ b) (a @ b @ c)" for a b c :: string
    by simp
  have t: "\<not> IsZero lib (rTime r) \<longrightarrow>
      prefix (appendTime lib h [] (rTime r) @ '' '' @ levelString (rLevel r) @ '' '')
        (fst (Handle_line lib h r [] s))"
    using ne by (simp add: Handle_line_parts Handle_head_def)
  have z: "IsZero lib (rTime r) \<longrightarrow>
      prefix (levelString (rLevel r) @ '' '') (fst (Handle_line lib h r [] s))"
    by (simp add: Handle_line_parts Handle_head_def)
  have m: "prefix (levelString (rLevel r) @ '' '')
     (fst (Handle_line lib (h\<lparr>opts := (opts h)\<lparr>TimeFormat := []\<rparr>\<rparr>) r [] s))"
    by (simp add: Handle_line_parts Handle_head_def)
  have f: "TimeFormat (opts h) = ''2006/01/02 15:04:05'' \<longrightarrow>
      appendTime lib h [] (rTime r) =
        zeroFill [] (fst (Date lib (rTime r))) 4 @ ''/''
          @ zeroFill [] (fst (snd (Date lib (rTime r)))) 2 @ ''/''
          @ zeroFill [] (snd (snd (Date lib (rTime r)))) 2 @ '' ''
          @ zeroFill [] (fst (Clock lib (rTime r))) 2 @ '':''
          @ zeroFill [] (fst (snd (Clock lib (rTime r)))) 2 @ '':''
          @ zeroFill [] (snd (snd (Clock lib (rTime r)))) 2"
    using appendTime_default [of h lib "rTime r"] by blast
  show ?thesis
    unfolding h_def [symmetric] using ne d1 d2 t z m f by blast
qed

text \<open>
  Claim C10 on a handler made with nil options: the line of a record with a set time starts
  with the timestamp in the default layout, that of a record with no time with the level.
\<close>

theorem New_time_format_default_witness:
  "TimeFormat (opts (newHandler bufferWriter None (emptyWorld [] :: (bool, string) World))) =
     ''2006/01/02 15:04:05'' \<and>
   prefix (''2025/11/14 14:03:14 INFO '')
     (fst (Handle_line exLib (newHandler bufferWriter None (emptyWorld [])) (exRecord True ''hi'' []) [] [])) \<and>
   prefix (''INFO '')
     (fst (Handle_line exLib (newHandler bufferWriter None (emptyWorld [])) (exRecord False ''hi'' []) [] []))"
proof -
  define h :: "(bool, string) Handler" where "h = newHandler bufferWriter None (emptyWorld [])"
  define r1 where "r1 = exRecord True ''hi'' []"
  define r2 where "r2 = exRecord False ''hi'' []"
  note T = New_time_format_default [of bufferWriter None "emptyWorld [] :: (bool, string) World"
      zeroOptions exLib _ "[]", folded h_def]
  have nz: "\<not> IsZero exLib (rTime r1)"
    by (simp add: exLib_def exRecord_def r1_def)
  have zz: "IsZero exLib (rTime r2)"
    by (simp add: exLib_def exRecord_def r2_def)
  have tf: "TimeFormat (opts h) = ''2006/01/02 15:04:05''"
    using T [of r1] by blast
  have at: "appendTime exLib h [] (rTime r1) = ''2025/11/14 14:03:14''"
    unfolding h_def r1_def by code_simp
  have lv: "levelString (rLevel r1) = ''INFO''" "levelString (rLevel r2) = ''INFO''"
    by (simp_all add: exRecord_def levelString_def LevelInfo_def LevelWarn_def levelStr_def r1_def r2_def)
  have p1: "prefix (appendTime exLib h [] (rTime r1) @ '' '' @ levelString (rLevel r1) @ '' '')
     (fst (Handle_line exLib h r1 [] []))"
    using T [of r1] nz by blast
  have p2: "prefix (levelString (rLevel r2) @ '' '') (fst (Handle_line exLib h r2 [] []))"
    using T [of r2] zz by blast
  show ?thesis
    unfolding h_def [symmetric] r1_def [symmetric] r2_def [symmetric]
    using tf p1 p2 by (simp add: at lv)
qed

subsection \<open>The claims about the handler's state\<close>

text \<open>
  Claim C4. Whatever the destination's \<open>Write\<close> returns, \<open>Handle\<close> returns exactly that
  error (none when the write reports none: building the line cannot fail), and afterwards
  the pointer it took from the pool is in the pool again, holding the line; the pool has
  as many items as before (one, if it was empty). The handlers are unchanged and the
  outside state is the one the writer left.
\<close>

theorem Handle_returns_buffer:
  assumes "pool (handlers w ! p) < length (pools w)"
    and "pool_Get (pools w ! pool (handlers w ! p)) = (bufp, pl)"
    and "Handle_line lib (handlers w ! p) r [] (ext w) = (line, s1)"
    and "out (handlers w ! p) line s1 = ((n, err), s2)"
  shows "fst (Handle lib p r w) = err \<and>
     items (pools (snd (Handle lib p r w)) ! pool (handlers w ! p)) = (fst bufp, line) # items pl \<and>
     fst bufp \<in> fst ` set (items (pools (snd (Handle lib p r w)) ! pool (handlers w ! p))) \<and>
     length (items (pools (snd (Handle lib p r w)) ! pool (handlers w ! p))) =
       max 1 (length (items (pools w ! pool (handlers w ! p)))) \<and>
     ext (snd (Handle lib p r w)) = s2 \<and>
     handlers (snd (Handle lib p r w)) = handlers w"
proof -
  have H: "Handle lib p r w =
      (err, w\<lparr>pools := (pools w)[pool (handlers w ! p) := pool_Put (fst bufp, line) pl], ext := s2\<rparr>)"
    using assms(2-4) by (simp add: Handle_def Let_def)
  have len: "length (items pl) = max 1 (length (items (pools w ! pool (handlers w ! p)))) - 1"
    using assms(2) by (auto simp: pool_Get_def split: list.splits)
  show ?thesis
    using assms(1) len by (simp add: H pool_Put_def)
qed

text \<open>
  Claim C4 on a destination that fails: \<open>Handle\<close> returns the destination's error, and
  the pool, empty before, holds the buffer with the line.
\<close>

theorem Handle_returns_buffer_witness:
  "fst (Handle exLib 0 (exRecord False ''hi'' []) failWorld) = Some (Error ''disk full'') \<and>
   items (pools (snd (Handle exLib 0 (exRecord False ''hi'' []) failWorld)) ! 0) =
     [(0, ''INFO msg=hi'' @ [CHR 0x0A])]"
proof -
  have p: "pool (handlers failWorld ! 0) < length (pools failWorld)"
    by code_simp
  have p0: "pool (handlers failWorld ! 0) = 0"
    by code_simp
  have g: "pool_Get (pools failWorld ! pool (handlers failWorld ! 0)) = ((0, []), \<lparr>items = [], made = 1\<rparr>)"
    by code_simp
  have l: "Handle_line exLib (handlers failWorld ! 0) (exRecord False ''hi'' []) [] (ext failWorld) =
      (''INFO msg=hi'' @ [CHR 0x0A], ())"
    by code_simp
  have o: "out (handlers failWorld ! 0) (''INFO msg=hi'' @ [CHR 0x0A]) () = ((0, Some (Error ''disk full'')), ())"
    by code_simp
  from Handle_returns_buffer [OF p g l o] show ?thesis
    by (simp add: p0)
qed

text \<open>
  Claim C7. \<open>WithAttrs\<close> with no attributes and \<open>WithGroup\<close> with the empty name return
  the address they were given and leave the program state as it was. In every case each
  handler object that existed before the call, the input among them, is unchanged after
  it; a non-empty call returns the address of a new object, the input's fields with the
  attributes appended or the group name added.
\<close>

theorem With_leaves_input_unchanged:
  "WithAttrs p [] w = (p, w) \<and> WithGroup p [] w = (p, w) \<and>
   (\<forall>q < length (handlers w).
      handlers (snd (WithAttrs p as w)) ! q = handlers w ! q \<and>
      handlers (snd (WithGroup p name w)) ! q = handlers w ! q) \<and>
   (as \<noteq> [] \<longrightarrow>
      fst (WithAttrs p as w) = length (handlers w) \<and>
      handlers (snd (WithAttrs p as w)) ! fst (WithAttrs p as w) =
        (handlers w ! p)\<lparr>attrs := attrs (handlers w ! p) @ as\<rparr>) \<and>
   (name \<noteq> [] \<longrightarrow>
      fst (WithGroup p name w) = length (handlers w) \<and>
      handlers (snd (WithGroup p name w)) ! fst (WithGroup p name w) =
        (handlers w ! p)\<lparr>groups := groups (handlers w ! p) @ [name]\<rparr>)"
proof -
  have a: "WithAttrs p [] w = (p, w)" by (simp add: WithAttrs_def)
  have g: "WithGroup p [] w = (p, w)" by (simp add: WithGroup_def)
  have f: "\<forall>q < length (handlers w).
      handlers (snd (WithAttrs p as w)) ! q = handlers w ! q \<and>
      handlers (snd (WithGroup p name w)) ! q = handlers w ! q"
    using WithAttrs_frame [of w p as] WithGroup_frame [of w p name]
    by (auto intro: take_nth_same)
  have na: "as \<noteq> [] \<longrightarrow>
      fst (WithAttrs p as w) = length (handlers w) \<and>
      handlers (snd (WithAttrs p as w)) ! fst (WithAttrs p as w) =
        (handlers w ! p)\<lparr>attrs := attrs (handlers w ! p) @ as\<rparr>"
    by (simp add: WithAttrs_eq)
  have ng: "name \<noteq> [] \<longrightarrow>
      fst (WithGroup p name w) = length (handlers w) \<and>
      handlers (snd (WithGroup p name w)) ! fst (WithGroup p name w) =
        (handlers w ! p)\<lparr>groups := groups (handlers w ! p) @ [name]\<rparr>"
    by (simp add: WithGroup_eq)
  show ?thesis using a g f na ng by blast
qed

text \<open>
  Claim C7 on a state with one handler, at address 0: the empty calls return 0 and the
  same state; the non-empty calls return the new address 1 and leave the object at 0 as
  it was.
\<close>

theorem With_leaves_input_unchanged_witness:
  "WithAttrs 0 [] bufWorld = (0, bufWorld) \<and> WithGroup 0 [] bufWorld = (0, bufWorld) \<and>
   handlers (snd (WithAttrs 0 [Attr ''k'' (StringValue ''v'')] bufWorld)) ! 0 = handlers bufWorld ! 0 \<and>
   handlers (snd (WithGroup 0 ''g'' bufWorld)) ! 0 = handlers bufWorld ! 0 \<and>
   fst (WithAttrs 0 [Attr ''k'' (StringValue ''v'')] bufWorld) = 1 \<and>
   fst (WithGroup 0 ''g'' bufWorld) = 1"
proof -
  have n: "length (handlers bufWorld) = 1"
    by (simp add: bufWorld_def New_def emptyWorld_def Let_def)
  have a: "[Attr ''k'' (StringValue ''v'')] \<noteq> ([] :: bool Attr list)" by simp
  have g: "''g'' \<noteq> []" by simp
  from With_leaves_input_unchanged [of 0 bufWorld "[Attr ''k'' (StringValue ''v'')]" "''g''"] n a g
  show ?thesis by simp
qed

text \<open>
  Claim C8. \<open>Enabled\<close> compares the level with what the leveler reads from the outside
  state at the time of the call: after any change of that state the next call answers by
  the new value (with no leveler the threshold is Info). With a \<open>LevelVar\<close> cell as leveler, a call before \<open>Set\<close> answers by the
  old content of the cell and a call after it by the value set.
\<close>

theorem Enabled_rereads_threshold:
  "(Level (opts (handlers w ! p)) = Some l \<longrightarrow>
      Enabled p level w = (l (ext w) \<le> level) \<and>
      Enabled p level (w\<lparr>ext := s'\<rparr>) = (l s' \<le> level)) \<and>
   (Level (opts (handlers w ! p)) = None \<longrightarrow> Enabled p level w = (LevelInfo \<le> level)) \<and>
   (Level (opts (handlers wv ! q)) = Some (LevelVar_Level v) \<longrightarrow>
      Enabled q level wv = (ext wv v \<le> level) \<and>
      Enabled q level (wv\<lparr>ext := LevelVar_Set v x (ext wv)\<rparr>) = (x \<le> level))"
  by (simp add: Enabled_def LevelVar_Level_def LevelVar_Set_def)

text \<open>
  Claim C8 on a handler whose leveler is a \<open>LevelVar\<close> cell holding Info: Debug is not
  enabled; after the cell is set to Debug, it is.
\<close>

theorem Enabled_rereads_threshold_witness:
  "\<not> Enabled 0 LevelDebug levelVarWorld \<and>
   Enabled 0 LevelDebug (levelVarWorld\<lparr>ext := LevelVar_Set 0 LevelDebug (ext levelVarWorld)\<rparr>)"
proof -
  have l: "Level (opts (handlers levelVarWorld ! 0)) = Some (LevelVar_Level 0)"
    by (simp add: levelVarWorld_def New_def emptyWorld_def Let_def zeroOptions_def)
  have e: "ext levelVarWorld 0 = LevelInfo"
    by (simp add: levelVarWorld_def New_def emptyWorld_def Let_def)
  from Enabled_rereads_threshold [of levelVarWorld 0 "LevelVar_Level 0" LevelDebug "ext levelVarWorld"
      levelVarWorld 0 0 LevelDebug] l e
  show ?thesis by (simp add: LevelInfo_def LevelDebug_def LevelVar_Level_def)
qed

subsection \<open>The claim about concurrent calls\<close>

text \<open>
  One call, run alone, writes its pieces in order. Two calls that take the same lock
  cannot alternate: in every schedule that can happen, the destination receives the
  pieces of one call and then those of the other. For two calls on one handler these are
  the two whole lines, in either order.
\<close>

lemma runSteps_pieces:
  "runSteps (map Piece bs @ rest) (held, d) = runSteps rest (held, d @ concat bs)"
  by (induction bs arbitrary: d) simp_all

lemma runSteps_one_call:
  "runSteps ([Lock p] @ map Piece bs @ [Unlock p]) ([], d) = Some ([], d @ concat bs)"
  by (simp add: runSteps_pieces)

lemma critical_section_first:
  "sch \<in> shuffles (map Piece xs @ [Unlock p]) (Lock p # rest) \<Longrightarrow>
   runSteps sch ([p], d) = Some st \<Longrightarrow>
   runSteps (Lock p # rest) ([], d @ concat xs) = Some st"
proof (induction xs arbitrary: sch d)
  case Nil
  from Nil.prems(1) have "sch = Unlock p # Lock p # rest \<or> (\<exists>t. sch = Lock p # t)"
    by auto
  then show ?case
  proof
    assume "sch = Unlock p # Lock p # rest"
    with Nil.prems(2) show ?thesis by simp
  next
    assume "\<exists>t. sch = Lock p # t"
    with Nil.prems(2) show ?thesis by auto
  qed
next
  case (Cons x xs)
  from Cons.prems(1) have
    "(\<exists>t. sch = Piece x # t \<and> t \<in> shuffles (map Piece xs @ [Unlock p]) (Lock p # rest)) \<or>
     (\<exists>t. sch = Lock p # t)"
    by auto
  then show ?case
  proof
    assume "\<exists>t. sch = Piece x # t \<and> t \<in> shuffles (map Piece xs @ [Unlock p]) (Lock p # rest)"
    then obtain t where t: "sch = Piece x # t"
        "t \<in> shuffles (map Piece xs @ [Unlock p]) (Lock p # rest)" by blast
    from Cons.prems(2) t(1) have "runSteps t ([p], d @ x) = Some st" by simp
    from Cons.IH [OF t(2) this] show ?thesis by simp
  next
    assume "\<exists>t. sch = Lock p # t"
    with Cons.prems(2) show ?thesis by auto
  qed
qed

lemma same_lock_serialized:
  assumes "sch \<in> shuffles ([Lock p] @ map Piece as @ [Unlock p]) ([Lock p] @ map Piece bs @ [Unlock p])"
    and "runSteps sch ([], d) = Some (held, d')"
  shows "d' = d @ concat as @ concat bs \<or> d' = d @ concat bs @ concat as"
proof -
  define A where "A = map Piece as @ [Unlock p]"
  define B where "B = map Piece bs @ [Unlock p]"
  from assms(1) have "sch \<in> (#) (Lock p) ` shuffles A (Lock p # B) \<union> (#) (Lock p) ` shuffles (Lock p # A) B"
    by (simp add: A_def B_def)
  then obtain t where t: "sch = Lock p # t" "t \<in> shuffles A (Lock p # B) \<or> t \<in> shuffles B (Lock p # A)"
    by (auto simp: shuffles_commutes)
  from assms(2) t(1) have r: "runSteps t ([p], d) = Some (held, d')" by simp
  from t(2) show ?thesis
  proof
    assume "t \<in> shuffles A (Lock p # B)"
    then have "runSteps (Lock p # B) ([], d @ concat as) = Some (held, d')"
      unfolding A_def using r by (rule critical_section_first)
    then show ?thesis using runSteps_one_call [of p bs "d @ concat as"] by (simp add: B_def)
  next
    assume "t \<in> shuffles B (Lock p # A)"
    then have "runSteps (Lock p # A) ([], d @ concat bs) = Some (held, d')"
      unfolding B_def using r by (rule critical_section_first)
    then show ?thesis using runSteps_one_call [of p as "d @ concat bs"] by (simp add: A_def)
  qed
qed

lemma concat_byteSplit: "concat (byteSplit b) = b"
  by (induction b) (simp_all add: byteSplit_def)

lemma same_handler_whole_lines:
  assumes "concat (split (fst (Handle_line lib (handlers w ! p) r1 [] (ext w)))) =
             fst (Handle_line lib (handlers w ! p) r1 [] (ext w))"
    and "concat (split (fst (Handle_line lib (handlers w ! p) r2 [] (ext w)))) =
             fst (Handle_line lib (handlers w ! p) r2 [] (ext w))"
    and "sch \<in> shuffles (Handle_steps lib split p r1 w) (Handle_steps lib split p r2 w)"
    and "runSteps sch ([], d) = Some (held, d')"
  shows "d' = d @ fst (Handle_line lib (handlers w ! p) r1 [] (ext w))
                @ fst (Handle_line lib (handlers w ! p) r2 [] (ext w)) \<or>
         d' = d @ fst (Handle_line lib (handlers w ! p) r2 [] (ext w))
                @ fst (Handle_line lib (handlers w ! p) r1 [] (ext w))"
  using same_lock_serialized [OF assms(3) [unfolded Handle_steps_def] assms(4)] assms(1,2)
  by simp

lemma insert_in_shuffles: "take n xs @ ys @ drop n xs \<in> shuffles xs ys"
proof (induction n arbitrary: xs)
  case 0
  have "ys @ xs \<in> shuffles xs ys" for xs :: "'a list"
    by (induction ys) (simp_all add: Cons_in_shuffles_rightI)
  then show ?case by simp
next
  case (Suc n)
  show ?case
  proof (cases xs)
    case Nil
    then show ?thesis by simp
  next
    case (Cons x xs')
    then show ?thesis using Suc.IH [of xs'] by (simp add: Cons_in_shuffles_leftI)
  qed
qed

text \<open>
  Claim C3 (the code departs from it). \<open>WithAttrs\<close> returns a new handler object, with a
  mutex of its own, that writes to the same destination as its parent. A call on the base
  (line \<open>INFO msg=b\<close>) and a call on the child (line \<open>INFO  k=vmsg=a\<close>) therefore take
  different locks, and the schedule in which the child's call runs between two bytes of the
  base's is one that can happen: the destination receives the child's line inside the
  base's, which is neither line followed by the other.
\<close>

theorem derived_handler_lines_interleave:
  "fst (WithAttrs 0 [Attr ''k'' (StringValue ''v'')] bufWorld) = 1 \<and>
   out (handlers childWorld ! 1) = out (handlers childWorld ! 0) \<and>
   fst (Handle_line exLib (handlers childWorld ! 0) (exRecord False ''b'' []) [] []) =
     ''INFO msg=b'' @ [CHR 0x0A] \<and>
   fst (Handle_line exLib (handlers childWorld ! 1) (exRecord False ''a'' []) [] []) =
     ''INFO  k=vmsg=a'' @ [CHR 0x0A] \<and>
   mixedSchedule \<in> shuffles baseSteps childSteps \<and>
   runSteps mixedSchedule ([], []) =
     Some ([], ''INFO INFO  k=vmsg=a'' @ [CHR 0x0A] @ ''msg=b'' @ [CHR 0x0A]) \<and>
   ''INFO INFO  k=vmsg=a'' @ [CHR 0x0A] @ ''msg=b'' @ [CHR 0x0A] \<noteq>
     (''INFO msg=b'' @ [CHR 0x0A]) @ (''INFO  k=vmsg=a'' @ [CHR 0x0A]) \<and>
   ''INFO INFO  k=vmsg=a'' @ [CHR 0x0A] @ ''msg=b'' @ [CHR 0x0A] \<noteq>
     (''INFO  k=vmsg=a'' @ [CHR 0x0A]) @ (''INFO msg=b'' @ [CHR 0x0A])"
proof -
  have n: "''INFO INFO  k=vmsg=a'' @ [CHR 0x0A] @ ''msg=b'' @ [CHR 0x0A] \<noteq>
     (''INFO msg=b'' @ [CHR 0x0A]) @ (''INFO  k=vmsg=a'' @ [CHR 0x0A])"
    "''INFO INFO  k=vmsg=a'' @ [CHR 0x0A] @ ''msg=b'' @ [CHR 0x0A] \<noteq>
     (''INFO  k=vmsg=a'' @ [CHR 0x0A]) @ (''INFO msg=b'' @ [CHR 0x0A])"
    by simp_all
  have a: "fst (WithAttrs 0 [Attr ''k'' (StringValue ''v'')] bufWorld) = 1"
    by code_simp
  have o: "out (handlers childWorld ! 1) = out (handlers childWorld ! 0)"
    by (simp add: childWorld_def WithAttrs_eq bufWorld_def New_def emptyWorld_def Let_def)
  have l0: "fst (Handle_line exLib (handlers childWorld ! 0) (exRecord False ''b'' []) [] []) =
     ''INFO msg=b'' @ [CHR 0x0A]"
    by code_simp
  have l1: "fst (Handle_line exLib (handlers childWorld ! 1) (exRecord False ''a'' []) [] []) =
     ''INFO  k=vmsg=a'' @ [CHR 0x0A]"
    by code_simp
  have m: "mixedSchedule \<in> shuffles baseSteps childSteps"
    unfolding mixedSchedule_def by (rule insert_in_shuffles)
  have r: "runSteps mixedSchedule ([], []) =
     Some ([], ''INFO INFO  k=vmsg=a'' @ [CHR 0x0A] @ ''msg=b'' @ [CHR 0x0A])"
    by code_simp
  show ?thesis using a o l0 l1 m r n by blast
qed

end
